theory Spec2Isabelle
  imports Main "HOL-Library.AList" "HOL-Library.Multiset"
    "HOL-Library.Char_ord" "HOL-Library.List_Lexorder"
begin

section \<open>Values, errors and dictionaries\<close>

text \<open>
  The program is Python, so the attributes of a product and the values of a persisted
  dictionary are dynamically typed. The values that occur are \<open>None\<close>, strings and
  numbers. The number type \<open>'n\<close> is left open: the development only uses its
  subtraction, so every theorem holds for whatever arithmetic the prices have (Python
  floats included). Equality of numbers is HOL equality; a NaN, which differs from
  itself in Python, is not a value of the model.
\<close>

datatype 'n pyval = PNone | PStr string | PNum 'n

datatype error = KeyError | TypeError | CorruptStateError | AcquisitionError | ValueError

text \<open>\<open>Dict[str, Any]\<close>: a raw record as \<open>json.load\<close> returns it.\<close>

type_synonym 'n pydict = "string \<rightharpoonup> 'n pyval"

definition bind_error :: "error + 'a \<Rightarrow> ('a \<Rightarrow> error + 'b) \<Rightarrow> error + 'b" where
  "bind_error m f = (case m of Inl e \<Rightarrow> Inl e | Inr x \<Rightarrow> f x)"

text \<open>\<open>data[k]\<close> raises \<open>KeyError\<close> on a missing key; \<open>data.get(k)\<close> gives \<open>None\<close>.\<close>

definition getitem :: "'n pydict \<Rightarrow> string \<Rightarrow> error + 'n pyval" where
  "getitem data k = (case data k of None \<Rightarrow> Inl KeyError | Some v \<Rightarrow> Inr v)"

definition dict_get :: "'n pydict \<Rightarrow> string \<Rightarrow> 'n pyval" where
  "dict_get data k = (case data k of None \<Rightarrow> PNone | Some v \<Rightarrow> v)"

text \<open>\<open>a - b\<close> is defined on two numbers and raises \<open>TypeError\<close> otherwise.\<close>

fun py_sub :: "('n::minus) pyval \<Rightarrow> 'n pyval \<Rightarrow> error + 'n pyval" where
  "py_sub (PNum a) (PNum b) = Inr (PNum (a - b))"
| "py_sub _ _ = Inl TypeError"

fun is_number :: "'n pyval \<Rightarrow> bool" where
  "is_number (PNum a) = True"
| "is_number _ = False"

section \<open>Product (src/scraper.py)\<close>

text \<open>The attribute \<open>image\<close> of the source is \<open>image_url\<close> here.\<close>

record 'n Product =
  sku :: "'n pyval"
  title :: "'n pyval"
  price :: "'n pyval"
  original_price :: "'n pyval"
  url :: "'n pyval"
  image_url :: "'n pyval"
  discount :: "'n pyval"

definition to_dict :: "'n Product \<Rightarrow> 'n pydict" where
  "to_dict p =
     [''sku'' \<mapsto> sku p,
      ''title'' \<mapsto> title p,
      ''price'' \<mapsto> price p,
      ''original_price'' \<mapsto> original_price p,
      ''url'' \<mapsto> url p,
      ''image'' \<mapsto> image_url p,
      ''discount'' \<mapsto> discount p]"

definition from_dict :: "'n pydict \<Rightarrow> error + 'n Product" where
  "from_dict data =
     bind_error (getitem data ''sku'') (\<lambda>s.
     bind_error (getitem data ''title'') (\<lambda>t.
     bind_error (getitem data ''price'') (\<lambda>pr.
     bind_error (getitem data ''url'') (\<lambda>u.
     bind_error (getitem data ''image'') (\<lambda>i.
       Inr \<lparr>sku = s, title = t, price = pr,
            original_price = dict_get data ''original_price'',
            url = u, image_url = i,
            discount = dict_get data ''discount''\<rparr>)))))"

text \<open>\<open>Product.__eq__\<close> and \<open>Product.__hash__\<close>; \<open>hash_fn\<close> is Python's built-in \<open>hash\<close>.\<close>

definition product_eq :: "'n Product \<Rightarrow> 'n Product \<Rightarrow> bool" where
  "product_eq self other = (sku self = sku other)"

definition product_hash :: "('n pyval \<Rightarrow> int) \<Rightarrow> 'n Product \<Rightarrow> int" where
  "product_hash hash_fn self = hash_fn (sku self)"

section \<open>ProductDiff and Differ (src/differ.py)\<close>

text \<open>An entry of \<open>price_changes\<close>; its key \<open>'product'\<close> is the field \<open>product_obj\<close>.\<close>

record 'n PriceChange =
  product_obj :: "'n Product"
  old_price :: "'n pyval"
  new_price :: "'n pyval"
  change :: "'n pyval"

record 'n ProductDiff =
  new_products :: "'n Product list"
  removed_products :: "'n Product list"
  price_changes :: "'n PriceChange list"

definition has_changes :: "'n ProductDiff \<Rightarrow> bool" where
  "has_changes diff =
     (new_products diff \<noteq> [] \<or> removed_products diff \<noteq> [] \<or> price_changes diff \<noteq> [])"

text \<open>
  A Python \<open>dict\<close> keyed by sku is an association list in insertion order:
  \<open>AList.update\<close> overwrites the value of a key that is present, in place, and appends
  a new key at the end, as \<open>d[k] = v\<close> does. \<open>d[k]\<close> raises \<open>KeyError\<close> on a missing key.
\<close>

type_synonym 'n sku_dict = "('n pyval \<times> 'n Product) list"

definition keys :: "'n sku_dict \<Rightarrow> 'n pyval list" where
  "keys d = map fst d"

definition lookup :: "'n sku_dict \<Rightarrow> 'n pyval \<Rightarrow> error + 'n Product" where
  "lookup d k = (case map_of d k of None \<Rightarrow> Inl KeyError | Some v \<Rightarrow> Inr v)"

text \<open>\<open>{p['sku']: Product.from_dict(p) for p in previous_products}\<close>\<close>

fun index_previous :: "'n pydict list \<Rightarrow> 'n sku_dict \<Rightarrow> error + 'n sku_dict" where
  "index_previous [] d = Inr d"
| "index_previous (p # ps) d =
     bind_error (getitem p ''sku'') (\<lambda>k.
     bind_error (from_dict p) (\<lambda>v.
       index_previous ps (AList.update k v d)))"

text \<open>\<open>{p.sku: p for p in current_products}\<close>\<close>

fun index_current :: "'n Product list \<Rightarrow> 'n sku_dict \<Rightarrow> 'n sku_dict" where
  "index_current [] d = d"
| "index_current (p # ps) d = index_current ps (AList.update (sku p) p d)"

text \<open>
  A Python \<open>set\<close> is given by the duplicate-free list of its elements. The order in
  which a set of strings is iterated depends on the hash seed of the process and is not
  fixed by the program, so it is a parameter \<open>iter\<close> of the model, applied to the
  elements of the set wherever the source iterates over one. An admissible \<open>iter\<close>
  enumerates every element exactly once.
\<close>

definition set_difference :: "'a list \<Rightarrow> 'a list \<Rightarrow> 'a list" where
  "set_difference xs ys = filter (\<lambda>k. k \<notin> set ys) xs"

definition set_intersection :: "'a list \<Rightarrow> 'a list \<Rightarrow> 'a list" where
  "set_intersection xs ys = filter (\<lambda>k. k \<in> set ys) xs"

definition valid_iter :: "('a list \<Rightarrow> 'a list) \<Rightarrow> bool" where
  "valid_iter iter = (\<forall>xs. distinct xs \<longrightarrow> distinct (iter xs) \<and> set (iter xs) = set xs)"

text \<open>\<open>[d[sku] for sku in skus]\<close>\<close>

fun lookup_all :: "'n sku_dict \<Rightarrow> 'n pyval list \<Rightarrow> error + 'n Product list" where
  "lookup_all d [] = Inr []"
| "lookup_all d (k # ks) =
     bind_error (lookup d k) (\<lambda>v.
     bind_error (lookup_all d ks) (\<lambda>vs. Inr (v # vs)))"

text \<open>The loop over \<open>common_skus\<close>, appending to \<open>diff.price_changes\<close>.\<close>

fun price_change_loop ::
  "('n::minus) sku_dict \<Rightarrow> 'n sku_dict \<Rightarrow> 'n pyval list \<Rightarrow> 'n PriceChange list
     \<Rightarrow> error + 'n PriceChange list" where
  "price_change_loop previous current [] acc = Inr acc"
| "price_change_loop previous current (k # ks) acc =
     bind_error (lookup previous k) (\<lambda>prev_product.
     bind_error (lookup current k) (\<lambda>curr_product.
       if price prev_product \<noteq> price curr_product then
         bind_error (py_sub (price curr_product) (price prev_product)) (\<lambda>c.
           price_change_loop previous current ks
             (acc @ [\<lparr>product_obj = curr_product,
                      old_price = price prev_product,
                      new_price = price curr_product,
                      change = c\<rparr>]))
       else price_change_loop previous current ks acc))"

definition compare ::
  "('n pyval list \<Rightarrow> 'n pyval list) \<Rightarrow> ('n::minus) pydict list \<Rightarrow> 'n Product list
     \<Rightarrow> error + 'n ProductDiff" where
  "compare iter previous_products current_products =
     bind_error (index_previous previous_products []) (\<lambda>previous.
       let current = index_current current_products [];
           new_skus = iter (set_difference (keys current) (keys previous));
           removed_skus = iter (set_difference (keys previous) (keys current));
           common_skus = iter (set_intersection (keys current) (keys previous))
       in
     bind_error (lookup_all current new_skus) (\<lambda>new.
     bind_error (lookup_all previous removed_skus) (\<lambda>removed.
     bind_error (price_change_loop previous current common_skus []) (\<lambda>changes.
       Inr \<lparr>new_products = new, removed_products = removed, price_changes = changes\<rparr>))))"

definition is_first_run :: "'n pydict list \<Rightarrow> bool" where
  "is_first_run previous_products = (length previous_products = 0)"

section \<open>Notifier (src/notifier.py)\<close>

text \<open>
  The world a cycle acts on: the persisted state file (\<open>None\<close> when it does not exist,
  its content otherwise) and the notifications handed to the Telegram bot so far, in
  order. A send that fails with \<open>TelegramError\<close> is caught and logged inside the
  notifier, so a notification is recorded once its message has been built, whether or
  not the bot delivers it.
\<close>

datatype 'n notification =
    NewProduct "'n Product"
  | RemovedProduct "'n Product"
  | PriceChanged "'n PriceChange"
  | ErrorNotification error

record ('n, 'c) world =
  state_file :: "'c option"
  sent :: "'n notification list"

definition dispatch :: "'n notification \<Rightarrow> ('n, 'c) world \<Rightarrow> ('n, 'c) world" where
  "dispatch n w = w\<lparr>sent := sent w @ [n]\<rparr>"

text \<open>
  \<open>_send_new_product_notification\<close> builds its message outside the \<open>try\<close> block. The
  format \<open>:,.2f\<close> raises on a price that is not a number (\<open>TypeError\<close> for \<open>None\<close>,
  \<open>ValueError\<close> for a string), and a non-empty string as \<open>original_price\<close> raises
  \<open>TypeError\<close> in the comparison with the price. The other two messages format values
  that are numbers whenever a price change was recorded, and never raise.
\<close>

fun new_product_message_error :: "'n Product \<Rightarrow> error option" where
  "new_product_message_error p =
     (case price p of
        PNone \<Rightarrow> Some TypeError
      | PStr s \<Rightarrow> Some ValueError
      | PNum a \<Rightarrow>
          (case original_price p of
             PStr (c # cs) \<Rightarrow> Some TypeError
           | _ \<Rightarrow> None))"

text \<open>
  The three loops of \<open>send_diff_notifications\<close>. The result is the exception that
  escaped, if any, and the world at that moment.
\<close>

fun send_new_products ::
  "'n Product list \<Rightarrow> ('n, 'c) world \<Rightarrow> error option \<times> ('n, 'c) world" where
  "send_new_products [] w = (None, w)"
| "send_new_products (p # ps) w =
     (case new_product_message_error p of
        Some e \<Rightarrow> (Some e, w)
      | None \<Rightarrow> send_new_products ps (dispatch (NewProduct p) w))"

definition send_diff_notifications ::
  "'n ProductDiff \<Rightarrow> ('n, 'c) world \<Rightarrow> error option \<times> ('n, 'c) world" where
  "send_diff_notifications diff w =
     (if \<not> has_changes diff then (None, w)
      else case send_new_products (new_products diff) w of
             (Some e, w1) \<Rightarrow> (Some e, w1)
           | (None, w1) \<Rightarrow>
               (None, foldl (\<lambda>w' c. dispatch (PriceChanged c) w')
                        (foldl (\<lambda>w' p. dispatch (RemovedProduct p) w') w1
                           (removed_products diff))
                        (price_changes diff)))"

definition send_error_notification :: "error \<Rightarrow> ('n, 'c) world \<Rightarrow> ('n, 'c) world" where
  "send_error_notification e w = dispatch (ErrorNotification e) w"

fun is_change_notification :: "'n notification \<Rightarrow> bool" where
  "is_change_notification (ErrorNotification e) = False"
| "is_change_notification _ = True"

definition change_notifications :: "('n, 'c) world \<Rightarrow> 'n notification list" where
  "change_notifications w = filter is_change_notification (sent w)"

section \<open>Storage\<close>

text \<open>
  Modelled from the spec: \<open>Storage.load_state\<close> followed by
  \<open>Storage.get_products_from_state\<close> (src/storage.py is imported by main.py and
  scraper_single_run.py and is not among the sources). Section 4.2: \<open>load()\<close> returns the
  persisted records, or an empty list if no snapshot file exists yet, and fails with a
  \<open>CorruptStateError\<close> if the persisted content exists but cannot be parsed. The parser
  of the file format is the parameter \<open>parse\<close>, \<open>None\<close> on unparseable content.
\<close>

definition load_state ::
  "('c \<Rightarrow> 'n pydict list option) \<Rightarrow> ('n, 'c) world \<Rightarrow> error + 'n pydict list" where
  "load_state parse w =
     (case state_file w of
        None \<Rightarrow> Inr []
      | Some content \<Rightarrow>
          (case parse content of
             None \<Rightarrow> Inl CorruptStateError
           | Some records \<Rightarrow> Inr records))"

text \<open>
  Modelled from the spec: \<open>Storage.save_state\<close> (src/storage.py is not among the
  sources). Section 4.2: \<open>save(records)\<close> persists the given records as the new
  snapshot, fully replacing the previous content. The writer of the file format is the
  parameter \<open>render\<close>.
\<close>

definition save_state ::
  "('n pydict list \<Rightarrow> 'c) \<Rightarrow> 'n pydict list \<Rightarrow> ('n, 'c) world \<Rightarrow> ('n, 'c) world" where
  "save_state render records w = w\<lparr>state_file := Some (render records)\<rparr>"

section \<open>The cycle (main.py, scraper_single_run.py)\<close>

text \<open>
  \<open>scrape_result\<close> is what \<open>scraper.scrape()\<close> does when it is called: the products it
  returns or the exception it raises. \<open>run_scrape_cycle\<close> of main.py runs after
  \<open>main\<close> has validated the configuration and tested the bot, so constructing
  \<open>TelegramNotifier\<close> there is taken not to raise.
\<close>

definition run_scrape_cycle_sync ::
  "('c \<Rightarrow> 'n pydict list option) \<Rightarrow> error + 'n Product list \<Rightarrow> ('n, 'c) world
     \<Rightarrow> error + 'n pydict list \<times> 'n Product list" where
  "run_scrape_cycle_sync parse scrape_result w =
     bind_error (load_state parse w) (\<lambda>previous_products.
     bind_error scrape_result (\<lambda>current_products.
       Inr (previous_products, current_products)))"

text \<open>
  The statements between the empty-scrape check and the end of the \<open>try\<close> block, common
  to both entry points: compare and notify unless this is the first run, then save.
\<close>

definition compare_notify_save ::
  "('n pyval list \<Rightarrow> 'n pyval list) \<Rightarrow> ('n pydict list \<Rightarrow> 'c) \<Rightarrow>
     ('n::minus) pydict list \<Rightarrow> 'n Product list \<Rightarrow> ('n, 'c) world
     \<Rightarrow> error option \<times> ('n, 'c) world" where
  "compare_notify_save iter render previous_products current_products w =
     (case (if is_first_run previous_products then (None, w)
            else case compare iter previous_products current_products of
                   Inl e \<Rightarrow> (Some e, w)
                 | Inr diff \<Rightarrow>
                     if has_changes diff then send_diff_notifications diff w
                     else (None, w)) of
        (Some e, w1) \<Rightarrow> (Some e, w1)
      | (None, w1) \<Rightarrow> (None, save_state render (map to_dict current_products) w1))"

text \<open>
  \<open>run_scrape_cycle\<close> of main.py returns nothing; the outcome says which of its three
  exits was taken (completed, no products found, or the \<open>except\<close> branch).
\<close>

datatype outcome = Completed | NoProducts | Failed error

definition run_scrape_cycle ::
  "('n pyval list \<Rightarrow> 'n pyval list) \<Rightarrow> ('c \<Rightarrow> 'n pydict list option) \<Rightarrow>
     ('n pydict list \<Rightarrow> 'c) \<Rightarrow> error + ('n::minus) Product list \<Rightarrow> ('n, 'c) world
     \<Rightarrow> outcome \<times> ('n, 'c) world" where
  "run_scrape_cycle iter parse render scrape_result w =
     (case run_scrape_cycle_sync parse scrape_result w of
        Inl e \<Rightarrow> (Failed e, send_error_notification e w)
      | Inr (previous_products, current_products) \<Rightarrow>
          if current_products = [] then (NoProducts, w)
          else case compare_notify_save iter render previous_products current_products w of
                 (Some e, w1) \<Rightarrow> (Failed e, send_error_notification e w1)
               | (None, w1) \<Rightarrow> (Completed, w1))"

text \<open>
  The part of \<open>Config\<close> (src/config.py) that \<open>validate\<close> reads: the two Telegram
  settings, \<open>None\<close> when the environment variable is unset, and whether the site
  configuration is a non-empty dictionary. \<open>truthy\<close> is Python's truth value of an
  optional string.
\<close>

record config =
  telegram_bot_token :: "string option"
  telegram_chat_id :: "string option"
  site_config_nonempty :: bool

fun truthy :: "string option \<Rightarrow> bool" where
  "truthy None = False"
| "truthy (Some s) = (s \<noteq> [])"

definition validate :: "config \<Rightarrow> error + bool" where
  "validate cfg =
     (if \<not> truthy (telegram_bot_token cfg) then Inl ValueError
      else if \<not> truthy (telegram_chat_id cfg) then Inl ValueError
      else if \<not> site_config_nonempty cfg then Inl ValueError
      else Inr True)"

text \<open>
  The \<open>except\<close> branch of \<open>main\<close> in scraper_single_run.py: it constructs a
  \<open>TelegramNotifier\<close> and sends the error notification, and swallows whatever this
  raises. The bot of the Telegram library cannot be constructed without a token, so
  with no token nothing is sent.
\<close>

definition notify_error_or_pass ::
  "config \<Rightarrow> error \<Rightarrow> ('n, 'c) world \<Rightarrow> ('n, 'c) world" where
  "notify_error_or_pass cfg e w =
     (if truthy (telegram_bot_token cfg) then send_error_notification e w else w)"

text \<open>
  \<open>main\<close> of scraper_single_run.py returns whether the run succeeded. Its first
  statement, inside the \<open>try\<close> block, is \<open>config.validate()\<close>.
\<close>

definition single_run_main ::
  "config \<Rightarrow> ('n pyval list \<Rightarrow> 'n pyval list) \<Rightarrow> ('c \<Rightarrow> 'n pydict list option) \<Rightarrow>
     ('n pydict list \<Rightarrow> 'c) \<Rightarrow> error + ('n::minus) Product list \<Rightarrow> ('n, 'c) world
     \<Rightarrow> bool \<times> ('n, 'c) world" where
  "single_run_main cfg iter parse render scrape_result w =
     (case validate cfg of
        Inl e \<Rightarrow> (False, notify_error_or_pass cfg e w)
      | Inr ok \<Rightarrow>
         (case run_scrape_cycle_sync parse scrape_result w of
            Inl e \<Rightarrow> (False, notify_error_or_pass cfg e w)
          | Inr (previous_products, current_products) \<Rightarrow>
              if current_products = [] then (False, w)
              else case compare_notify_save iter render previous_products
                          current_products w of
                     (Some e, w1) \<Rightarrow> (False, notify_error_or_pass cfg e w1)
                   | (None, w1) \<Rightarrow> (True, w1)))"

section \<open>Vocabulary of the properties\<close>

text \<open>
  \<open>latest k ps\<close> is the record with sku \<open>k\<close> that appears last in the list \<open>ps\<close>, if
  there is one; \<open>pick ps k\<close> is that record when it exists.
\<close>

definition latest :: "'n pyval \<Rightarrow> 'n Product list \<Rightarrow> 'n Product option" where
  "latest k ps = find (\<lambda>p. sku p = k) (rev ps)"

definition pick :: "'n Product list \<Rightarrow> 'n pyval \<Rightarrow> 'n Product" where
  "pick ps k = the (latest k ps)"

text \<open>The keys of the dictionary that indexes a list of records, in insertion order.\<close>

definition skus_of :: "'n Product list \<Rightarrow> 'n pyval list" where
  "skus_of ps = keys (index_current ps [])"

text \<open>The difference of two prices, where \<open>py_sub\<close> returns one.\<close>

definition delta :: "('n::minus) pyval \<Rightarrow> 'n pyval \<Rightarrow> 'n pyval" where
  "delta new old = (case py_sub new old of Inl e \<Rightarrow> PNone | Inr c \<Rightarrow> c)"

definition entry ::
  "('n::minus) Product list \<Rightarrow> 'n Product list \<Rightarrow> 'n pyval \<Rightarrow> 'n PriceChange" where
  "entry prev cur k =
     \<lparr>product_obj = pick cur k,
      old_price = price (pick prev k),
      new_price = price (pick cur k),
      change = delta (price (pick cur k)) (price (pick prev k))\<rparr>"

text \<open>
  The report of \<open>compare\<close> in closed form, for previous records \<open>prev\<close> already
  reconstructed from their dictionaries; \<open>compare_eq\<close> below proves that \<open>compare\<close>
  returns it.
\<close>

definition diff_of ::
  "('n pyval list \<Rightarrow> 'n pyval list) \<Rightarrow> ('n::minus) Product list \<Rightarrow> 'n Product list
     \<Rightarrow> 'n ProductDiff" where
  "diff_of iter prev cur =
     \<lparr>new_products = map (pick cur) (iter (set_difference (skus_of cur) (skus_of prev))),
      removed_products = map (pick prev) (iter (set_difference (skus_of prev) (skus_of cur))),
      price_changes = map (entry prev cur)
        (filter (\<lambda>k. price (pick prev k) \<noteq> price (pick cur k))
           (iter (set_intersection (skus_of cur) (skus_of prev))))\<rparr>"

text \<open>
  Ascending order by sku, as \<open>sorted(..., key=lambda p: p.sku)\<close> would give it: skus are
  strings, compared character by character. Python does not order values of different
  types, nor \<open>None\<close>.
\<close>

fun sku_le :: "('n::ord) pyval \<Rightarrow> 'n pyval \<Rightarrow> bool" where
  "sku_le (PStr a) (PStr b) = (a \<le> b)"
| "sku_le (PNum a) (PNum b) = (a \<le> b)"
| "sku_le _ _ = False"

definition sorted_by_sku :: "('n::ord) pyval list \<Rightarrow> bool" where
  "sorted_by_sku ks = sorted_wrt sku_le ks"

text \<open>
  Records for the concrete cases. The examples of the specification give the sku and
  the price only; the other required keys get fixed values, and the raw record has no
  optional key.
\<close>

definition example_product :: "string \<Rightarrow> int \<Rightarrow> int Product" where
  "example_product s n =
     \<lparr>sku = PStr s, title = PStr ''Camera'', price = PNum n, original_price = PNone,
      url = PStr ''https://shop.example/item'', image_url = PStr [], discount = PNone\<rparr>"

definition example_raw :: "string \<Rightarrow> int \<Rightarrow> int pydict" where
  "example_raw s n =
     [''sku'' \<mapsto> PStr s,
      ''title'' \<mapsto> PStr ''Camera'',
      ''price'' \<mapsto> PNum n,
      ''url'' \<mapsto> PStr ''https://shop.example/item'',
      ''image'' \<mapsto> PStr []]"

definition example_world :: "(int, int pydict list) world" where
  "example_world = \<lparr>state_file = None, sent = []\<rparr>"

definition example_config :: config where
  "example_config =
     \<lparr>telegram_bot_token = Some ''12345:token'', telegram_chat_id = Some ''67890'',
      site_config_nonempty = True\<rparr>"

text \<open>
  A state file cut off in the middle of a record, and a parser that reads the empty
  snapshot only.
\<close>

definition corrupt_world :: "(int, string) world" where
  "corrupt_world = \<lparr>state_file = Some ''[{sku: A, pri'', sent = []\<rparr>"

definition example_parse :: "string \<Rightarrow> int pydict list option" where
  "example_parse content = (if content = ''[]'' then Some [] else None)"

section \<open>Dictionaries, sets and the closed form of compare\<close>

lemma bind_error_simps [simp]:
  "bind_error (Inl e) f = Inl e" "bind_error (Inr x) f = f x"
  by (simp_all add: bind_error_def)

lemma latest_Nil [simp]: "latest k [] = None"
  by (simp add: latest_def)

lemma find_append:
  "find P (xs @ ys) = (case find P xs of None \<Rightarrow> find P ys | Some x \<Rightarrow> Some x)"
  by (induction xs) auto

lemma latest_Cons:
  "latest k (p # ps) =
     (case latest k ps of None \<Rightarrow> (if sku p = k then Some p else None) | Some q \<Rightarrow> Some q)"
  by (auto simp: latest_def find_append split: option.splits)

lemma latest_Some_iff_mem: "(\<exists>p. latest k ps = Some p) \<longleftrightarrow> k \<in> sku ` set ps"
  by (induction ps) (auto simp: latest_Cons split: option.splits)

lemma latest_SomeD: "latest k ps = Some p \<Longrightarrow> p \<in> set ps \<and> sku p = k"
  by (induction ps) (auto simp: latest_Cons split: option.splits if_splits)

lemma latest_pick: "k \<in> sku ` set ps \<Longrightarrow> latest k ps = Some (pick ps k)"
  using latest_Some_iff_mem [of k ps] by (auto simp: pick_def)

lemma map_of_index_current:
  "map_of (index_current ps d) k =
     (case latest k ps of None \<Rightarrow> map_of d k | Some p \<Rightarrow> Some p)"
  by (induction ps arbitrary: d) (auto simp: latest_Cons update_conv' split: option.splits)

lemma map_of_index: "map_of (index_current ps []) k = latest k ps"
  by (simp add: map_of_index_current split: option.splits)

lemma keys_index_current: "set (keys (index_current ps d)) = set (keys d) \<union> sku ` set ps"
  by (induction ps arbitrary: d) (auto simp: keys_def dom_update)

lemma distinct_index_current: "distinct (keys d) \<Longrightarrow> distinct (keys (index_current ps d))"
  by (induction ps arbitrary: d) (auto simp: keys_def distinct_update)

lemma set_skus_of [simp]: "set (skus_of ps) = sku ` set ps"
  using keys_index_current [of ps "[]"] by (simp add: skus_of_def keys_def)

lemma distinct_skus_of [simp]: "distinct (skus_of ps)"
  using distinct_index_current [of "[]" ps] by (simp add: skus_of_def keys_def)

lemma set_set_difference [simp]: "set (set_difference xs ys) = set xs - set ys"
  by (auto simp: set_difference_def)

lemma set_set_intersection [simp]: "set (set_intersection xs ys) = set xs \<inter> set ys"
  by (auto simp: set_intersection_def)

lemma distinct_set_difference [simp]: "distinct xs \<Longrightarrow> distinct (set_difference xs ys)"
  by (simp add: set_difference_def)

lemma distinct_set_intersection [simp]: "distinct xs \<Longrightarrow> distinct (set_intersection xs ys)"
  by (simp add: set_intersection_def)

lemma valid_iter_set: "valid_iter iter \<Longrightarrow> distinct xs \<Longrightarrow> set (iter xs) = set xs"
  by (simp add: valid_iter_def)

lemma valid_iter_distinct: "valid_iter iter \<Longrightarrow> distinct xs \<Longrightarrow> distinct (iter xs)"
  by (simp add: valid_iter_def)

lemma from_dict_sku: "from_dict r = Inr q \<Longrightarrow> getitem r ''sku'' = Inr (sku q)"
  by (auto simp: from_dict_def bind_error_def split: sum.splits)

lemma index_previous_eq:
  "map from_dict rs = map Inr qs \<Longrightarrow> index_previous rs d = Inr (index_current qs d)"
proof (induction rs arbitrary: qs d)
  case Nil
  then show ?case by simp
next
  case (Cons r rs)
  then obtain q qs' where qs: "qs = q # qs'" "from_dict r = Inr q" "map from_dict rs = map Inr qs'"
    by (cases qs) auto
  with Cons.IH [of qs'] show ?case
    by (simp add: from_dict_sku)
qed

lemma lookup_all_eq:
  "set ks \<subseteq> set (keys d) \<Longrightarrow> lookup_all d ks = Inr (map (\<lambda>k. the (map_of d k)) ks)"
proof (induction ks)
  case Nil
  then show ?case by simp
next
  case (Cons k ks)
  then have "k \<in> fst ` set d" by (simp add: keys_def)
  then obtain v where "map_of d k = Some v"
    by (metis domD dom_map_of_conv_image_fst)
  with Cons show ?case by (simp add: lookup_def)
qed

lemma lookup_all_index:
  assumes "set ks \<subseteq> sku ` set ps"
  shows "lookup_all (index_current ps []) ks = Inr (map (pick ps) ks)"
proof -
  from assms have "set ks \<subseteq> set (keys (index_current ps []))"
    using keys_index_current [of ps "[]"] by (simp add: keys_def)
  then have "lookup_all (index_current ps []) ks =
             Inr (map (\<lambda>k. the (map_of (index_current ps []) k)) ks)"
    by (rule lookup_all_eq)
  moreover have "map (\<lambda>k. the (map_of (index_current ps []) k)) ks = map (pick ps) ks"
    using assms by (auto simp: map_of_index latest_pick)
  ultimately show ?thesis by simp
qed

lemma py_sub_num: "is_number a \<Longrightarrow> is_number b \<Longrightarrow> py_sub a b = Inr (delta a b)"
  by (cases a; cases b) (simp_all add: delta_def)

lemma price_change_loop_eq:
  assumes "set ks \<subseteq> sku ` set prev \<inter> sku ` set cur"
    and "\<forall>k\<in>set ks. price (pick prev k) \<noteq> price (pick cur k) \<longrightarrow>
           is_number (price (pick prev k)) \<and> is_number (price (pick cur k))"
  shows "price_change_loop (index_current prev []) (index_current cur []) ks acc =
         Inr (acc @ map (entry prev cur)
                (filter (\<lambda>k. price (pick prev k) \<noteq> price (pick cur k)) ks))"
  using assms
proof (induction ks arbitrary: acc)
  case Nil
  then show ?case by simp
next
  case (Cons k ks)
  from Cons.prems have kp: "latest k prev = Some (pick prev k)"
    and kc: "latest k cur = Some (pick cur k)"
    by (simp_all add: latest_pick)
  have lp: "lookup (index_current prev []) k = Inr (pick prev k)"
    and lc: "lookup (index_current cur []) k = Inr (pick cur k)"
    by (simp_all add: lookup_def map_of_index kp kc)
  have rest: "\<And>acc'. price_change_loop (index_current prev []) (index_current cur []) ks acc' =
      Inr (acc' @ map (entry prev cur)
             (filter (\<lambda>k. price (pick prev k) \<noteq> price (pick cur k)) ks))"
    using Cons.IH Cons.prems by simp
  show ?case
  proof (cases "price (pick prev k) = price (pick cur k)")
    case True
    then show ?thesis by (simp add: lp lc rest)
  next
    case False
    with Cons.prems have "is_number (price (pick prev k))" "is_number (price (pick cur k))"
      by simp_all
    then have "py_sub (price (pick cur k)) (price (pick prev k)) =
               Inr (delta (price (pick cur k)) (price (pick prev k)))"
      by (simp add: py_sub_num)
    with False show ?thesis by (simp add: lp lc rest entry_def)
  qed
qed

lemma compare_eq:
  assumes it: "valid_iter iter"
    and raws: "map from_dict previous_products = map Inr prev"
    and nums: "\<forall>k\<in>sku ` set prev \<inter> sku ` set cur.
        price (pick prev k) \<noteq> price (pick cur k) \<longrightarrow>
          is_number (price (pick prev k)) \<and> is_number (price (pick cur k))"
  shows "compare iter previous_products cur = Inr (diff_of iter prev cur)"
proof -
  have ip: "index_previous previous_products [] = Inr (index_current prev [])"
    using raws by (rule index_previous_eq)
  let ?new = "iter (set_difference (skus_of cur) (skus_of prev))"
  let ?rem = "iter (set_difference (skus_of prev) (skus_of cur))"
  let ?com = "iter (set_intersection (skus_of cur) (skus_of prev))"
  have sn: "set ?new = sku ` set cur - sku ` set prev"
    and sr: "set ?rem = sku ` set prev - sku ` set cur"
    and sc: "set ?com = sku ` set cur \<inter> sku ` set prev"
    using it by (simp_all add: valid_iter_set)
  have n: "lookup_all (index_current cur []) ?new = Inr (map (pick cur) ?new)"
    by (rule lookup_all_index) (use sn in auto)
  have r: "lookup_all (index_current prev []) ?rem = Inr (map (pick prev) ?rem)"
    by (rule lookup_all_index) (use sr in auto)
  have c: "price_change_loop (index_current prev []) (index_current cur []) ?com [] =
           Inr ([] @ map (entry prev cur)
             (filter (\<lambda>k. price (pick prev k) \<noteq> price (pick cur k)) ?com))"
    by (rule price_change_loop_eq) (use sc nums in auto)
  show ?thesis
    using n r c by (simp add: compare_def ip Let_def diff_of_def skus_of_def)
qed

lemma valid_iter_rev: "valid_iter rev"
  by (simp add: valid_iter_def)

lemma valid_iter_id: "valid_iter (\<lambda>xs. xs)"
  by (simp add: valid_iter_def)

lemma valid_iter_Nil: "valid_iter iter \<Longrightarrow> iter [] = []"
  using valid_iter_set [of iter "[]"] by simp

lemma valid_iter_single: "valid_iter iter \<Longrightarrow> iter [x] = [x]"
proof -
  assume v: "valid_iter iter"
  have s: "set (iter [x]) = {x}" and d: "distinct (iter [x])"
    using v valid_iter_set [of iter "[x]"] valid_iter_distinct [of iter "[x]"] by simp_all
  show ?thesis
  proof (cases "iter [x]")
    case Nil
    with s show ?thesis by simp
  next
    case (Cons y ys)
    with s d have "y = x" "set ys \<subseteq> {x}" "y \<notin> set ys" by auto
    then have "ys = []" by (cases ys) auto
    with Cons \<open>y = x\<close> show ?thesis by simp
  qed
qed

lemma from_dict_example_raw: "from_dict (example_raw s n) = Inr (example_product s n)"
  by (simp add: from_dict_def example_raw_def example_product_def getitem_def dict_get_def)

lemma from_dict_to_dict: "from_dict (to_dict p) = Inr p"
  by (simp add: from_dict_def to_dict_def getitem_def dict_get_def)

lemma pick_mem: "k \<in> sku ` set ps \<Longrightarrow> pick ps k \<in> set ps"
  by (drule latest_pick, drule latest_SomeD, erule conjunct1)

lemma sku_pick: "k \<in> sku ` set ps \<Longrightarrow> sku (pick ps k) = k"
  by (drule latest_pick, drule latest_SomeD, erule conjunct2)

lemma map_sku_pick: "set ks \<subseteq> sku ` set ps \<Longrightarrow> map (\<lambda>k. sku (pick ps k)) ks = ks"
proof (induction ks)
  case Nil
  then show ?case by simp
next
  case (Cons k ks)
  then have "k \<in> sku ` set ps" by simp
  then have "sku (pick ps k) = k" by (rule sku_pick)
  with Cons show ?case by simp
qed

lemma nums_all:
  "\<forall>p\<in>set prev \<union> set cur. is_number (price p) \<Longrightarrow>
   \<forall>k\<in>sku ` set prev \<inter> sku ` set cur.
        price (pick prev k) \<noteq> price (pick cur k) \<longrightarrow>
          is_number (price (pick prev k)) \<and> is_number (price (pick cur k))"
proof (intro ballI impI conjI)
  fix k assume a: "\<forall>p\<in>set prev \<union> set cur. is_number (price p)"
    "k \<in> sku ` set prev \<inter> sku ` set cur"
  from a(2) have "pick prev k \<in> set prev" by (simp add: pick_mem)
  with a(1) show "is_number (price (pick prev k))" by simp
  from a(2) have "pick cur k \<in> set cur" by (simp add: pick_mem)
  with a(1) show "is_number (price (pick cur k))" by simp
qed

lemma skus_new:
  "valid_iter iter \<Longrightarrow>
   map sku (new_products (diff_of iter prev cur)) =
     iter (set_difference (skus_of cur) (skus_of prev))"
proof -
  assume v: "valid_iter iter"
  have "set (iter (set_difference (skus_of cur) (skus_of prev))) \<subseteq> sku ` set cur"
    using v by (auto simp: valid_iter_set)
  then show ?thesis
    using map_sku_pick [of _ cur] by (simp add: diff_of_def comp_def)
qed

lemma skus_removed:
  "valid_iter iter \<Longrightarrow>
   map sku (removed_products (diff_of iter prev cur)) =
     iter (set_difference (skus_of prev) (skus_of cur))"
proof -
  assume v: "valid_iter iter"
  have "set (iter (set_difference (skus_of prev) (skus_of cur))) \<subseteq> sku ` set prev"
    using v by (auto simp: valid_iter_set)
  then show ?thesis
    using map_sku_pick [of _ prev] by (simp add: diff_of_def comp_def)
qed

lemma skus_changes:
  "valid_iter iter \<Longrightarrow>
   map (\<lambda>e. sku (product_obj e)) (price_changes (diff_of iter prev cur)) =
     filter (\<lambda>k. price (pick prev k) \<noteq> price (pick cur k))
       (iter (set_intersection (skus_of cur) (skus_of prev)))"
proof -
  assume v: "valid_iter iter"
  have "set (filter (\<lambda>k. price (pick prev k) \<noteq> price (pick cur k))
       (iter (set_intersection (skus_of cur) (skus_of prev)))) \<subseteq> sku ` set cur"
    using v by (auto simp: valid_iter_set)
  then show ?thesis
    using map_sku_pick [of _ cur] by (simp add: diff_of_def comp_def entry_def)
qed

lemma set_new:
  "valid_iter iter \<Longrightarrow>
   set (new_products (diff_of iter prev cur)) =
     pick cur ` (sku ` set cur - sku ` set prev)"
  by (simp add: diff_of_def valid_iter_set)

lemma set_removed:
  "valid_iter iter \<Longrightarrow>
   set (removed_products (diff_of iter prev cur)) =
     pick prev ` (sku ` set prev - sku ` set cur)"
  by (simp add: diff_of_def valid_iter_set)

lemma set_changes:
  "valid_iter iter \<Longrightarrow>
   set (price_changes (diff_of iter prev cur)) =
     entry prev cur ` {k \<in> sku ` set cur \<inter> sku ` set prev.
                         price (pick prev k) \<noteq> price (pick cur k)}"
  by (auto simp: diff_of_def valid_iter_set)

lemma changes_iff:
  assumes v: "valid_iter iter" and nums: "\<forall>p\<in>set prev \<union> set cur. is_number (price p)"
  shows "e \<in> set (price_changes (diff_of iter prev cur)) \<longleftrightarrow>
     (\<exists>k pp cp c. latest k prev = Some pp \<and> latest k cur = Some cp \<and>
        price pp \<noteq> price cp \<and> py_sub (price cp) (price pp) = Inr c \<and>
        e = \<lparr>product_obj = cp, old_price = price pp, new_price = price cp, change = c\<rparr>)"
    (is "?L \<longleftrightarrow> ?R")
proof
  assume ?L
  then obtain k where k: "k \<in> sku ` set cur" "k \<in> sku ` set prev"
    "price (pick prev k) \<noteq> price (pick cur k)" "e = entry prev cur k"
    using set_changes [OF v, of prev cur] by auto
  have "pick prev k \<in> set prev" "pick cur k \<in> set cur"
    using k by (simp_all add: pick_mem)
  with nums have "is_number (price (pick prev k))" "is_number (price (pick cur k))"
    by simp_all
  then have "py_sub (price (pick cur k)) (price (pick prev k)) =
             Inr (delta (price (pick cur k)) (price (pick prev k)))"
    by (simp add: py_sub_num)
  with k show ?R
    using latest_pick [of k prev] latest_pick [of k cur] by (auto simp: entry_def)
next
  assume ?R
  then obtain k pp cp c where r: "latest k prev = Some pp" "latest k cur = Some cp"
    "price pp \<noteq> price cp" "py_sub (price cp) (price pp) = Inr c"
    "e = \<lparr>product_obj = cp, old_price = price pp, new_price = price cp, change = c\<rparr>"
    by blast
  then have k: "k \<in> sku ` set prev" "k \<in> sku ` set cur"
    using latest_Some_iff_mem by blast+
  have p: "pick prev k = pp" "pick cur k = cp"
    using r by (simp_all add: pick_def)
  have e: "e = entry prev cur k"
    using r p by (simp add: entry_def delta_def)
  have "k \<in> {k \<in> sku ` set cur \<inter> sku ` set prev.
                         price (pick prev k) \<noteq> price (pick cur k)}"
    using k r p by simp
  then have "entry prev cur k \<in> entry prev cur ` {k \<in> sku ` set cur \<inter> sku ` set prev.
                         price (pick prev k) \<noteq> price (pick cur k)}"
    by (rule imageI)
  then show ?L
    unfolding e set_changes [OF v, of prev cur] .
qed

section \<open>The report of compare\<close>

lemma sku_example [simp]: "sku (example_product s n) = PStr s"
  by (simp add: example_product_def)

lemma price_example [simp]: "price (example_product s n) = PNum n"
  by (simp add: example_product_def)

lemma distinct_skus_changes:
  "valid_iter iter \<Longrightarrow>
   distinct (map (\<lambda>e. sku (product_obj e)) (price_changes (diff_of iter prev cur)))"
  by (simp add: skus_changes valid_iter_distinct)

lemma compare_example:
  assumes v: "valid_iter it"
  shows "compare it [example_raw ''A'' 100]
           [example_product ''A'' 120, example_product ''B'' 50] =
         Inr \<lparr>new_products = [example_product ''B'' 50], removed_products = [],
              price_changes = [\<lparr>product_obj = example_product ''A'' 120,
                 old_price = PNum 100, new_price = PNum 120, change = PNum 20\<rparr>]\<rparr>"
proof -
  let ?prev = "[example_product ''A'' 100]"
  let ?cur = "[example_product ''A'' 120, example_product ''B'' 50]"
  have "compare it [example_raw ''A'' 100] ?cur = Inr (diff_of it ?prev ?cur)"
    by (rule compare_eq [OF v], simp add: from_dict_example_raw, rule nums_all, simp)
  moreover have "skus_of ?prev = [PStr ''A'']" "skus_of ?cur = [PStr ''A'', PStr ''B'']"
    by (simp_all add: skus_of_def keys_def)
  moreover have "pick ?cur (PStr ''B'') = example_product ''B'' 50"
    "pick ?cur (PStr ''A'') = example_product ''A'' 120"
    "pick ?prev (PStr ''A'') = example_product ''A'' 100"
    by (simp_all add: pick_def latest_def)
  ultimately show ?thesis
    by (simp add: diff_of_def set_difference_def set_intersection_def
        valid_iter_single [OF v] valid_iter_Nil [OF v] entry_def delta_def)
qed

text \<open>
  C1. On well-formed input (every previous dictionary deserialises, prices are numbers)
  \<open>compare\<close> returns a report whose price-change entries are exactly the entries built,
  for each sku present on both sides with differing prices, from the current record,
  the old price, the new price and their difference, one entry per sku; and on the
  example of the specification the report is new = [B], removed = [], one price change
  A: 100 to 120, delta 20.
\<close>

theorem compare_price_changes:
  "(valid_iter iter \<and> map from_dict previous_products = map Inr prev \<and>
      (\<forall>p\<in>set prev \<union> set cur. is_number (price p)) \<longrightarrow>
    (\<exists>d. compare iter previous_products cur = Inr d \<and>
       distinct (map (\<lambda>e. sku (product_obj e)) (price_changes d)) \<and>
       (\<forall>e. e \<in> set (price_changes d) \<longleftrightarrow>
          (\<exists>k pp cp c. latest k prev = Some pp \<and> latest k cur = Some cp \<and>
             price pp \<noteq> price cp \<and> py_sub (price cp) (price pp) = Inr c \<and>
             e = \<lparr>product_obj = cp, old_price = price pp, new_price = price cp,
                   change = c\<rparr>)))) \<and>
   (valid_iter it \<longrightarrow>
      compare it [example_raw ''A'' 100]
        [example_product ''A'' 120, example_product ''B'' 50] =
      Inr \<lparr>new_products = [example_product ''B'' 50], removed_products = [],
           price_changes = [\<lparr>product_obj = example_product ''A'' 120,
              old_price = PNum 100, new_price = PNum 120, change = PNum 20\<rparr>]\<rparr>)"
proof (intro conjI impI)
  assume a: "valid_iter iter \<and> map from_dict previous_products = map Inr prev \<and>
      (\<forall>p\<in>set prev \<union> set cur. is_number (price p))"
  then have v: "valid_iter iter" and nums: "\<forall>p\<in>set prev \<union> set cur. is_number (price p)"
    by simp_all
  have eq: "compare iter previous_products cur = Inr (diff_of iter prev cur)"
    using a by (intro compare_eq nums_all) simp_all
  show "\<exists>d. compare iter previous_products cur = Inr d \<and>
       distinct (map (\<lambda>e. sku (product_obj e)) (price_changes d)) \<and>
       (\<forall>e. e \<in> set (price_changes d) \<longleftrightarrow>
          (\<exists>k pp cp c. latest k prev = Some pp \<and> latest k cur = Some cp \<and>
             price pp \<noteq> price cp \<and> py_sub (price cp) (price pp) = Inr c \<and>
             e = \<lparr>product_obj = cp, old_price = price pp, new_price = price cp,
                   change = c\<rparr>))"
    using eq distinct_skus_changes [OF v] changes_iff [OF v nums] by blast
next
  assume "valid_iter it"
  then show "compare it [example_raw ''A'' 100]
        [example_product ''A'' 120, example_product ''B'' 50] =
      Inr \<lparr>new_products = [example_product ''B'' 50], removed_products = [],
           price_changes = [\<lparr>product_obj = example_product ''A'' 120,
              old_price = PNum 100, new_price = PNum 120, change = PNum 20\<rparr>]\<rparr>"
    by (rule compare_example)
qed

theorem compare_price_changes_witness:
  "valid_iter (rev :: int pyval list \<Rightarrow> int pyval list) \<and>
   map from_dict [example_raw ''A'' 100, example_raw ''C'' 7] =
     map Inr [example_product ''A'' 100, example_product ''C'' 7] \<and>
   list_all (\<lambda>p. is_number (price p))
     ([example_product ''A'' 100, example_product ''C'' 7] @
      [example_product ''A'' 120, example_product ''B'' 50]) \<and>
   (\<exists>d. compare rev [example_raw ''A'' 100, example_raw ''C'' 7]
          [example_product ''A'' 120, example_product ''B'' 50] = Inr d \<and>
        \<lparr>product_obj = example_product ''A'' 120, old_price = PNum 100,
          new_price = PNum 120, change = PNum 20\<rparr> \<in> set (price_changes d)) \<and>
   compare rev [example_raw ''A'' 100]
        [example_product ''A'' 120, example_product ''B'' 50] =
      Inr \<lparr>new_products = [example_product ''B'' 50], removed_products = [],
           price_changes = [\<lparr>product_obj = example_product ''A'' 120,
              old_price = PNum 100, new_price = PNum 120, change = PNum 20\<rparr>]\<rparr>"
proof -
  let ?raws = "[example_raw ''A'' 100, example_raw ''C'' 7]"
  let ?prev = "[example_product ''A'' 100, example_product ''C'' 7]"
  let ?cur = "[example_product ''A'' 120, example_product ''B'' 50]"
  have h1: "valid_iter (rev :: int pyval list \<Rightarrow> int pyval list)"
    by (rule valid_iter_rev)
  have h2: "map from_dict ?raws = map Inr ?prev"
    by (simp add: from_dict_example_raw)
  have h3: "\<forall>p\<in>set ?prev \<union> set ?cur. is_number (price p)"
    by simp
  note t = compare_price_changes [of rev ?raws ?prev ?cur rev]
  from t h1 h2 h3 obtain d where d: "compare rev ?raws ?cur = Inr d"
    and m: "\<And>e. e \<in> set (price_changes d) \<longleftrightarrow>
          (\<exists>k pp cp c. latest k ?prev = Some pp \<and> latest k ?cur = Some cp \<and>
             price pp \<noteq> price cp \<and> py_sub (price cp) (price pp) = Inr c \<and>
             e = \<lparr>product_obj = cp, old_price = price pp, new_price = price cp,
                   change = c\<rparr>)"
    by blast
  have "latest (PStr ''A'') ?prev = Some (example_product ''A'' 100)"
    "latest (PStr ''A'') ?cur = Some (example_product ''A'' 120)"
    by (simp_all add: latest_def)
  then have "\<lparr>product_obj = example_product ''A'' 120, old_price = PNum 100,
          new_price = PNum 120, change = PNum 20\<rparr> \<in> set (price_changes d)"
    unfolding m
    by (intro exI [of _ "PStr ''A''"] exI [of _ "example_product ''A'' 100"]
        exI [of _ "example_product ''A'' 120"] exI [of _ "PNum 20"]) simp
  moreover have "list_all (\<lambda>p. is_number (price p)) (?prev @ ?cur)"
    by simp
  ultimately show ?thesis
    using d h1 h2 compare_example [OF h1] by blast
qed

lemma valid_iter_mset: "valid_iter iter \<Longrightarrow> distinct xs \<Longrightarrow> mset (iter xs) = mset xs"
  using set_eq_iff_mset_eq_distinct [of "iter xs" xs]
  by (simp add: valid_iter_set valid_iter_distinct)

lemma latest_distinct:
  assumes "distinct (map sku ps)" "p \<in> set ps"
  shows "latest (sku p) ps = Some p"
proof -
  from assms(2) have "sku p \<in> sku ` set ps" by (rule imageI)
  then have l: "latest (sku p) ps = Some (pick ps (sku p))" by (rule latest_pick)
  then have "pick ps (sku p) \<in> set ps" "sku (pick ps (sku p)) = sku p"
    using latest_SomeD by blast+
  moreover from assms(1) have "inj_on sku (set ps)" by (simp add: distinct_map)
  ultimately have "pick ps (sku p) = p"
    using assms(2) by (simp add: inj_on_def)
  with l show ?thesis by simp
qed

lemma mset_map_pick:
  assumes d: "distinct (map sku ps)" and k: "distinct ks" "set ks = sku ` set ps"
  shows "mset (map (pick ps) ks) = mset ps"
proof -
  have "mset ks = mset (map sku ps)"
    using d k set_eq_iff_mset_eq_distinct [of ks "map sku ps"] by simp
  then have "mset (map (pick ps) ks) = mset (map (pick ps) (map sku ps))"
    by (metis mset_map)
  also have "map (pick ps) (map sku ps) = map (\<lambda>p. p) ps"
    unfolding map_map
  proof (rule map_cong [OF refl])
    fix p assume "p \<in> set ps"
    with d have "latest (sku p) ps = Some p" by (rule latest_distinct)
    then show "(pick ps \<circ> sku) p = p" by (simp add: pick_def)
  qed
  finally show ?thesis by simp
qed

text \<open>
  C2. When the previous and the current records share no sku, \<open>compare\<close> returns a
  report with no price change, whose new products are current records covering every
  current sku and whose removed products are previous records covering every previous
  sku; when the skus of a side are pairwise different, the list is that side, up to
  order.
\<close>

theorem compare_disjoint:
  assumes v: "valid_iter iter"
    and raws: "map from_dict previous_products = map Inr prev"
    and disj: "sku ` set prev \<inter> sku ` set cur = {}"
  shows "\<exists>d. compare iter previous_products cur = Inr d \<and>
           price_changes d = [] \<and>
           set (new_products d) \<subseteq> set cur \<and>
           sku ` set (new_products d) = sku ` set cur \<and>
           set (removed_products d) \<subseteq> set prev \<and>
           sku ` set (removed_products d) = sku ` set prev \<and>
           (distinct (map sku cur) \<longrightarrow> mset (new_products d) = mset cur) \<and>
           (distinct (map sku prev) \<longrightarrow> mset (removed_products d) = mset prev)"
proof -
  let ?d = "diff_of iter prev cur"
  let ?new = "iter (set_difference (skus_of cur) (skus_of prev))"
  let ?rem = "iter (set_difference (skus_of prev) (skus_of cur))"
  have eq: "compare iter previous_products cur = Inr ?d"
    using v raws disj by (intro compare_eq) simp_all
  have sn: "set ?new = sku ` set cur" and sr: "set ?rem = sku ` set prev"
    using v disj by (auto simp: valid_iter_set)
  have dn: "distinct ?new" and dr: "distinct ?rem"
    using v by (simp_all add: valid_iter_distinct)
  have "set (iter (set_intersection (skus_of cur) (skus_of prev))) = {}"
    using v disj by (auto simp: valid_iter_set)
  then have pc: "price_changes ?d = []"
    by (simp add: diff_of_def)
  have n1: "set (new_products ?d) \<subseteq> set cur"
    using sn pick_mem [of _ cur] by (auto simp: diff_of_def)
  have r1: "set (removed_products ?d) \<subseteq> set prev"
    using sr pick_mem [of _ prev] by (auto simp: diff_of_def)
  have n2: "sku ` set (new_products ?d) = sku ` set cur"
    using skus_new [OF v, of prev cur] sn by (metis set_map)
  have r2: "sku ` set (removed_products ?d) = sku ` set prev"
    using skus_removed [OF v, of prev cur] sr by (metis set_map)
  have n3: "distinct (map sku cur) \<longrightarrow> mset (new_products ?d) = mset cur"
    using mset_map_pick [of cur ?new] dn sn by (simp add: diff_of_def)
  have r3: "distinct (map sku prev) \<longrightarrow> mset (removed_products ?d) = mset prev"
    using mset_map_pick [of prev ?rem] dr sr by (simp add: diff_of_def)
  from eq pc n1 n2 r1 r2 n3 r3 show ?thesis by blast
qed

theorem compare_disjoint_witness:
  "valid_iter (rev :: int pyval list \<Rightarrow> int pyval list) \<and>
   map from_dict [example_raw ''C'' 5, example_raw ''D'' 6] =
     map Inr [example_product ''C'' 5, example_product ''D'' 6] \<and>
   sku ` set [example_product ''C'' 5, example_product ''D'' 6] \<inter>
     sku ` set [example_product ''A'' 1, example_product ''B'' 2] = {} \<and>
   distinct (map sku [example_product ''A'' 1, example_product ''B'' 2]) \<and>
   distinct (map sku [example_product ''C'' 5, example_product ''D'' 6]) \<and>
   (\<exists>d. compare rev [example_raw ''C'' 5, example_raw ''D'' 6]
          [example_product ''A'' 1, example_product ''B'' 2] = Inr d \<and>
        price_changes d = [] \<and>
        mset (new_products d) = mset [example_product ''A'' 1, example_product ''B'' 2] \<and>
        mset (removed_products d) = mset [example_product ''C'' 5, example_product ''D'' 6])"
proof -
  let ?raws = "[example_raw ''C'' 5, example_raw ''D'' 6]"
  let ?prev = "[example_product ''C'' 5, example_product ''D'' 6]"
  let ?cur = "[example_product ''A'' 1, example_product ''B'' 2]"
  have h1: "valid_iter (rev :: int pyval list \<Rightarrow> int pyval list)"
    by (rule valid_iter_rev)
  have h2: "map from_dict ?raws = map Inr ?prev"
    by (simp add: from_dict_example_raw)
  have h3: "sku ` set ?prev \<inter> sku ` set ?cur = {}"
    by simp
  have h4: "distinct (map sku ?cur)" "distinct (map sku ?prev)"
    by simp_all
  from compare_disjoint [OF h1 h2 h3] obtain d where
    d: "compare rev ?raws ?cur = Inr d \<and>
           price_changes d = [] \<and>
           set (new_products d) \<subseteq> set ?cur \<and>
           sku ` set (new_products d) = sku ` set ?cur \<and>
           set (removed_products d) \<subseteq> set ?prev \<and>
           sku ` set (removed_products d) = sku ` set ?prev \<and>
           (distinct (map sku ?cur) \<longrightarrow> mset (new_products d) = mset ?cur) \<and>
           (distinct (map sku ?prev) \<longrightarrow> mset (removed_products d) = mset ?prev)" ..
  note d1 = d [THEN conjunct1] and d2 = d [THEN conjunct2, THEN conjunct1]
    and d7 = d [THEN conjunct2, THEN conjunct2, THEN conjunct2, THEN conjunct2,
                THEN conjunct2, THEN conjunct2, THEN conjunct1, THEN mp, OF h4(1)]
    and d8 = d [THEN conjunct2, THEN conjunct2, THEN conjunct2, THEN conjunct2,
                THEN conjunct2, THEN conjunct2, THEN conjunct2, THEN mp, OF h4(2)]
  have "\<exists>d. compare rev ?raws ?cur = Inr d \<and> price_changes d = [] \<and>
        mset (new_products d) = mset ?cur \<and> mset (removed_products d) = mset ?prev"
    by (rule exI [of _ d], intro conjI, rule d1, rule d2, rule d7, rule d8)
  with h1 h2 h3 h4 show ?thesis
    by (intro conjI)
qed

lemma latest_new:
  assumes v: "valid_iter iter" and p: "p \<in> set (new_products (diff_of iter prev cur))"
  shows "latest (sku p) cur = Some p \<and> sku p \<notin> sku ` set prev"
proof -
  from p obtain k where k: "k \<in> sku ` set cur - sku ` set prev" "p = pick cur k"
    unfolding set_new [OF v] by blast
  then have "latest k cur = Some p" "sku p = k"
    by (simp_all add: latest_pick sku_pick)
  with k show ?thesis by simp
qed

lemma latest_removed:
  assumes v: "valid_iter iter" and p: "p \<in> set (removed_products (diff_of iter prev cur))"
  shows "latest (sku p) prev = Some p \<and> sku p \<notin> sku ` set cur"
proof -
  from p obtain k where k: "k \<in> sku ` set prev - sku ` set cur" "p = pick prev k"
    unfolding set_removed [OF v] by blast
  then have "latest k prev = Some p" "sku p = k"
    by (simp_all add: latest_pick sku_pick)
  with k show ?thesis by simp
qed

lemma latest_changes:
  assumes v: "valid_iter iter" and e: "e \<in> set (price_changes (diff_of iter prev cur))"
  shows "latest (sku (product_obj e)) cur = Some (product_obj e) \<and>
         (\<exists>pp. latest (sku (product_obj e)) prev = Some pp \<and> old_price e = price pp \<and>
               price pp \<noteq> price (product_obj e))"
proof -
  from e obtain k where k: "k \<in> sku ` set cur" "k \<in> sku ` set prev"
    "price (pick prev k) \<noteq> price (pick cur k)" "e = entry prev cur k"
    unfolding set_changes [OF v] by blast
  have c: "latest k cur = Some (pick cur k)" "sku (pick cur k) = k"
    using k(1) by (simp_all add: latest_pick sku_pick)
  have pp: "latest k prev = Some (pick prev k)"
    using k(2) by (rule latest_pick)
  have pe: "product_obj e = pick cur k" "old_price e = price (pick prev k)"
    using k(4) by (simp_all add: entry_def)
  show ?thesis
    unfolding pe c using c(1) pp k(3) by blast
qed

text \<open>
  C3. \<open>Product.__eq__\<close> holds exactly when the skus are equal and records with equal
  skus have equal hashes, whatever the other fields are; and when the previous and the
  current record of a sku have the same price, \<open>compare\<close> reports that sku neither as
  new, nor as removed, nor as a price change, whatever their titles, images and
  discounts are.
\<close>

theorem identity_by_sku:
  "(product_eq a b \<longleftrightarrow> sku a = sku b) \<and>
   (sku a = sku b \<longrightarrow> product_hash hash_fn a = product_hash hash_fn b) \<and>
   (valid_iter iter \<and> map from_dict previous_products = map Inr prev \<and>
      (\<forall>p\<in>set prev \<union> set cur. is_number (price p)) \<and>
      latest k prev = Some pp \<and> latest k cur = Some cp \<and> price pp = price cp \<longrightarrow>
    (\<exists>d. compare iter previous_products cur = Inr d \<and>
       k \<notin> sku ` set (new_products d) \<and>
       k \<notin> sku ` set (removed_products d) \<and>
       k \<notin> (\<lambda>e. sku (product_obj e)) ` set (price_changes d)))"
proof (intro conjI impI)
  show "product_eq a b \<longleftrightarrow> sku a = sku b"
    by (simp add: product_eq_def)
next
  assume "sku a = sku b"
  then show "product_hash hash_fn a = product_hash hash_fn b"
    by (simp add: product_hash_def)
next
  assume a: "valid_iter iter \<and> map from_dict previous_products = map Inr prev \<and>
      (\<forall>p\<in>set prev \<union> set cur. is_number (price p)) \<and>
      latest k prev = Some pp \<and> latest k cur = Some cp \<and> price pp = price cp"
  then have v: "valid_iter iter" and lp: "latest k prev = Some pp"
    and lc: "latest k cur = Some cp" and pr: "price pp = price cp"
    by simp_all
  let ?d = "diff_of iter prev cur"
  have eq: "compare iter previous_products cur = Inr ?d"
    using a by (intro compare_eq nums_all) simp_all
  have kp: "k \<in> sku ` set prev" and kc: "k \<in> sku ` set cur"
    using lp lc latest_Some_iff_mem by blast+
  have n: "k \<notin> sku ` set (new_products ?d)"
    using latest_new [OF v, of _ prev cur] kp by blast
  have r: "k \<notin> sku ` set (removed_products ?d)"
    using latest_removed [OF v, of _ prev cur] kc by blast
  have c: "k \<notin> (\<lambda>e. sku (product_obj e)) ` set (price_changes ?d)"
  proof
    assume "k \<in> (\<lambda>e. sku (product_obj e)) ` set (price_changes ?d)"
    then obtain e where e: "e \<in> set (price_changes ?d)" "k = sku (product_obj e)"
      by blast
    from latest_changes [OF v e(1)] e(2) lp lc pr show False
      by auto
  qed
  from eq n r c
  show "\<exists>d. compare iter previous_products cur = Inr d \<and>
       k \<notin> sku ` set (new_products d) \<and>
       k \<notin> sku ` set (removed_products d) \<and>
       k \<notin> (\<lambda>e. sku (product_obj e)) ` set (price_changes d)"
    by blast
qed

lemma from_dict_example_other:
  "from_dict ((example_raw s n)(''title'' \<mapsto> t, ''discount'' \<mapsto> d)) =
     Inr ((example_product s n)\<lparr>title := t, discount := d\<rparr>)"
  by (simp add: from_dict_def example_raw_def example_product_def getitem_def dict_get_def)

theorem identity_by_sku_witness:
  "sku (example_product ''A'' 100) =
     sku ((example_product ''A'' 120)\<lparr>title := PStr ''Lens'', image_url := PStr ''a.png''\<rparr>) \<and>
   product_eq (example_product ''A'' 100)
     ((example_product ''A'' 120)\<lparr>title := PStr ''Lens'', image_url := PStr ''a.png''\<rparr>) \<and>
   product_hash (\<lambda>v. 0) (example_product ''A'' 100) =
     product_hash (\<lambda>v. 0)
       ((example_product ''A'' 120)\<lparr>title := PStr ''Lens'', image_url := PStr ''a.png''\<rparr>) \<and>
   (\<exists>d. compare rev
          [(example_raw ''A'' 100)(''title'' \<mapsto> PStr ''Old'', ''discount'' \<mapsto> PStr ''5%'')]
          [(example_product ''A'' 100)\<lparr>title := PStr ''Lens'', image_url := PStr ''a.png''\<rparr>]
        = Inr d \<and>
        PStr ''A'' \<notin> sku ` set (new_products d) \<and>
        PStr ''A'' \<notin> sku ` set (removed_products d) \<and>
        PStr ''A'' \<notin> (\<lambda>e. sku (product_obj e)) ` set (price_changes d))"
proof -
  let ?a = "example_product ''A'' 100"
  let ?b = "(example_product ''A'' 120)\<lparr>title := PStr ''Lens'', image_url := PStr ''a.png''\<rparr>"
  let ?raws = "[(example_raw ''A'' 100)(''title'' \<mapsto> PStr ''Old'', ''discount'' \<mapsto> PStr ''5%'')]"
  let ?pp = "(example_product ''A'' 100)\<lparr>title := PStr ''Old'', discount := PStr ''5%''\<rparr>"
  let ?cp = "(example_product ''A'' 100)\<lparr>title := PStr ''Lens'', image_url := PStr ''a.png''\<rparr>"
  note t = identity_by_sku [of ?a ?b "\<lambda>v. 0" rev ?raws "[?pp]" "[?cp]" "PStr ''A''" ?pp ?cp]
  have s: "sku ?a = sku ?b"
    by simp
  have h: "valid_iter (rev :: int pyval list \<Rightarrow> int pyval list) \<and>
      map from_dict ?raws = map Inr [?pp] \<and>
      (\<forall>p\<in>set [?pp] \<union> set [?cp]. is_number (price p)) \<and>
      latest (PStr ''A'') [?pp] = Some ?pp \<and> latest (PStr ''A'') [?cp] = Some ?cp \<and>
      price ?pp = price ?cp"
    by (simp add: valid_iter_rev from_dict_example_other latest_def)
  note t1 = t [THEN conjunct1] and t2 = t [THEN conjunct2, THEN conjunct1, THEN mp, OF s]
    and t3 = t [THEN conjunct2, THEN conjunct2, THEN mp, OF h]
  from t1 s have "product_eq ?a ?b" by (rule iffD2)
  with s t2 t3 show ?thesis
    by (intro conjI)
qed

lemma distinct_skus_new:
  "valid_iter iter \<Longrightarrow> distinct (map sku (new_products (diff_of iter prev cur)))"
  by (simp add: skus_new valid_iter_distinct)

lemma distinct_skus_removed:
  "valid_iter iter \<Longrightarrow> distinct (map sku (removed_products (diff_of iter prev cur)))"
  by (simp add: skus_removed valid_iter_distinct)

lemma new_iff:
  assumes v: "valid_iter iter"
  shows "p \<in> set (new_products (diff_of iter prev cur)) \<longleftrightarrow>
           latest (sku p) cur = Some p \<and> latest (sku p) prev = None"
    (is "?L \<longleftrightarrow> ?R")
proof
  assume ?L
  then have l: "latest (sku p) cur = Some p" and n: "sku p \<notin> sku ` set prev"
    using latest_new [OF v, of p prev cur] by simp_all
  from n have "latest (sku p) prev = None"
    using latest_Some_iff_mem [of "sku p" prev] by (cases "latest (sku p) prev") auto
  with l show ?R by simp
next
  assume r: ?R
  then have l: "latest (sku p) cur = Some p" and n: "latest (sku p) prev = None"
    by simp_all
  from l have kc: "sku p \<in> sku ` set cur"
    using latest_Some_iff_mem [of "sku p" cur] by blast
  from n have kp: "sku p \<notin> sku ` set prev"
    using latest_Some_iff_mem [of "sku p" prev] by auto
  from l have pk: "pick cur (sku p) = p"
    by (simp add: pick_def)
  from kc kp have "sku p \<in> sku ` set cur - sku ` set prev"
    by simp
  then have "pick cur (sku p) \<in> pick cur ` (sku ` set cur - sku ` set prev)"
    by (rule imageI)
  then show ?L
    unfolding pk set_new [OF v, of prev cur] .
qed

lemma removed_iff:
  assumes v: "valid_iter iter"
  shows "p \<in> set (removed_products (diff_of iter prev cur)) \<longleftrightarrow>
           latest (sku p) prev = Some p \<and> latest (sku p) cur = None"
    (is "?L \<longleftrightarrow> ?R")
proof
  assume ?L
  then have l: "latest (sku p) prev = Some p" and n: "sku p \<notin> sku ` set cur"
    using latest_removed [OF v, of p prev cur] by simp_all
  from n have "latest (sku p) cur = None"
    using latest_Some_iff_mem [of "sku p" cur] by (cases "latest (sku p) cur") auto
  with l show ?R by simp
next
  assume r: ?R
  then have l: "latest (sku p) prev = Some p" and n: "latest (sku p) cur = None"
    by simp_all
  from l have kp: "sku p \<in> sku ` set prev"
    using latest_Some_iff_mem [of "sku p" prev] by blast
  from n have kc: "sku p \<notin> sku ` set cur"
    using latest_Some_iff_mem [of "sku p" cur] by auto
  from l have pk: "pick prev (sku p) = p"
    by (simp add: pick_def)
  from kp kc have "sku p \<in> sku ` set prev - sku ` set cur"
    by simp
  then have "pick prev (sku p) \<in> pick prev ` (sku ` set prev - sku ` set cur)"
    by (rule imageI)
  then show ?L
    unfolding pk set_removed [OF v, of prev cur] .
qed

text \<open>
  C8. With or without duplicate skus inside a side, \<open>compare\<close> returns a report (on
  well-formed input), and the report is decided by the record that appears last with
  each sku in its side: a record is a new product exactly when it is the last current
  record of its sku and no previous record has that sku; it is a removed product
  exactly when it is the last previous record of its sku and no current record has that
  sku; and the price changes are exactly the entries built from the last previous and
  the last current record of a sku whose prices differ, with the last current record as
  the product, the price of the last previous record as the old price, the price of the
  last current record as the new price and their difference as the change. No sku
  occurs twice in a list of the report.
\<close>

theorem compare_last_write_wins:
  assumes v: "valid_iter iter"
    and raws: "map from_dict previous_products = map Inr prev"
    and nums: "\<forall>p\<in>set prev \<union> set cur. is_number (price p)"
  shows "\<exists>d. compare iter previous_products cur = Inr d \<and>
           distinct (map sku (new_products d)) \<and>
           distinct (map sku (removed_products d)) \<and>
           distinct (map (\<lambda>e. sku (product_obj e)) (price_changes d)) \<and>
           (\<forall>p. p \<in> set (new_products d) \<longleftrightarrow>
                  latest (sku p) cur = Some p \<and> latest (sku p) prev = None) \<and>
           (\<forall>p. p \<in> set (removed_products d) \<longleftrightarrow>
                  latest (sku p) prev = Some p \<and> latest (sku p) cur = None) \<and>
           (\<forall>e. e \<in> set (price_changes d) \<longleftrightarrow>
              (\<exists>k pp cp c. latest k prev = Some pp \<and> latest k cur = Some cp \<and>
                 price pp \<noteq> price cp \<and> py_sub (price cp) (price pp) = Inr c \<and>
                 e = \<lparr>product_obj = cp, old_price = price pp, new_price = price cp,
                       change = c\<rparr>))"
proof -
  let ?d = "diff_of iter prev cur"
  have eq: "compare iter previous_products cur = Inr ?d"
    using v raws nums by (intro compare_eq nums_all)
  have n: "\<forall>p. p \<in> set (new_products ?d) \<longleftrightarrow>
                  latest (sku p) cur = Some p \<and> latest (sku p) prev = None"
    using new_iff [OF v] by blast
  have r: "\<forall>p. p \<in> set (removed_products ?d) \<longleftrightarrow>
                  latest (sku p) prev = Some p \<and> latest (sku p) cur = None"
    using removed_iff [OF v] by blast
  have c: "\<forall>e. e \<in> set (price_changes ?d) \<longleftrightarrow>
              (\<exists>k pp cp c. latest k prev = Some pp \<and> latest k cur = Some cp \<and>
                 price pp \<noteq> price cp \<and> py_sub (price cp) (price pp) = Inr c \<and>
                 e = \<lparr>product_obj = cp, old_price = price pp, new_price = price cp,
                       change = c\<rparr>)"
    using changes_iff [OF v nums] by blast
  show ?thesis
    by (rule exI [of _ ?d], intro conjI, rule eq, rule distinct_skus_new [OF v],
        rule distinct_skus_removed [OF v], rule distinct_skus_changes [OF v],
        rule n, rule r, rule c)
qed

lemma compare_duplicates_example:
  "compare rev [example_raw ''A'' 1, example_raw ''A'' 2, example_raw ''C'' 5, example_raw ''C'' 6]
      [example_product ''A'' 3, example_product ''A'' 4, example_product ''B'' 7,
       example_product ''B'' 8] =
   Inr \<lparr>new_products = [example_product ''B'' 8],
        removed_products = [example_product ''C'' 6],
        price_changes = [\<lparr>product_obj = example_product ''A'' 4, old_price = PNum 2,
           new_price = PNum 4, change = PNum 2\<rparr>]\<rparr>"
proof -
  let ?prev = "[example_product ''A'' 1, example_product ''A'' 2, example_product ''C'' 5,
                example_product ''C'' 6]"
  let ?cur = "[example_product ''A'' 3, example_product ''A'' 4, example_product ''B'' 7,
       example_product ''B'' 8]"
  have "compare rev [example_raw ''A'' 1, example_raw ''A'' 2, example_raw ''C'' 5,
          example_raw ''C'' 6] ?cur = Inr (diff_of rev ?prev ?cur)"
    by (rule compare_eq, rule valid_iter_rev, simp add: from_dict_example_raw,
        rule nums_all, simp)
  moreover have "skus_of ?prev = [PStr ''A'', PStr ''C'']"
    "skus_of ?cur = [PStr ''A'', PStr ''B'']"
    by (simp_all add: skus_of_def keys_def)
  moreover have "pick ?cur (PStr ''B'') = example_product ''B'' 8"
    "pick ?cur (PStr ''A'') = example_product ''A'' 4"
    "pick ?prev (PStr ''A'') = example_product ''A'' 2"
    "pick ?prev (PStr ''C'') = example_product ''C'' 6"
    by (simp_all add: pick_def latest_def)
  ultimately show ?thesis
    by (simp add: diff_of_def set_difference_def set_intersection_def entry_def delta_def)
qed

text \<open>
  The first record of a duplicated sku does not decide: previous A at 1 then A at 4,
  current A at 4, gives no price change.
\<close>

lemma compare_first_record_ignored:
  "compare rev [example_raw ''A'' 1, example_raw ''A'' 4] [example_product ''A'' 4] =
   Inr \<lparr>new_products = [], removed_products = [], price_changes = []\<rparr>"
proof -
  let ?prev = "[example_product ''A'' 1, example_product ''A'' 4]"
  let ?cur = "[example_product ''A'' 4]"
  have "compare rev [example_raw ''A'' 1, example_raw ''A'' 4] ?cur =
          Inr (diff_of rev ?prev ?cur)"
    by (rule compare_eq, rule valid_iter_rev, simp add: from_dict_example_raw,
        rule nums_all, simp)
  moreover have "skus_of ?prev = [PStr ''A'']" "skus_of ?cur = [PStr ''A'']"
    by (simp_all add: skus_of_def keys_def)
  moreover have "pick ?cur (PStr ''A'') = example_product ''A'' 4"
    "pick ?prev (PStr ''A'') = example_product ''A'' 4"
    by (simp_all add: pick_def latest_def)
  ultimately show ?thesis
    by (simp add: diff_of_def set_difference_def set_intersection_def)
qed

theorem compare_last_write_wins_witness:
  "valid_iter (rev :: int pyval list \<Rightarrow> int pyval list) \<and>
   map from_dict [example_raw ''A'' 1, example_raw ''A'' 2, example_raw ''C'' 5,
                  example_raw ''C'' 6] =
     map Inr [example_product ''A'' 1, example_product ''A'' 2, example_product ''C'' 5,
              example_product ''C'' 6] \<and>
   list_all (\<lambda>p. is_number (price p))
     ([example_product ''A'' 1, example_product ''A'' 2, example_product ''C'' 5,
       example_product ''C'' 6] @
      [example_product ''A'' 3, example_product ''A'' 4, example_product ''B'' 7,
       example_product ''B'' 8]) \<and>
   (\<exists>d. compare rev [example_raw ''A'' 1, example_raw ''A'' 2, example_raw ''C'' 5,
                     example_raw ''C'' 6]
          [example_product ''A'' 3, example_product ''A'' 4, example_product ''B'' 7,
           example_product ''B'' 8] = Inr d \<and>
        new_products d = [example_product ''B'' 8] \<and>
        removed_products d = [example_product ''C'' 6] \<and>
        price_changes d = [\<lparr>product_obj = example_product ''A'' 4, old_price = PNum 2,
           new_price = PNum 4, change = PNum 2\<rparr>] \<and>
        distinct (map sku (new_products d)) \<and>
        distinct (map sku (removed_products d)) \<and>
        distinct (map (\<lambda>e. sku (product_obj e)) (price_changes d)))"
proof -
  let ?raws = "[example_raw ''A'' 1, example_raw ''A'' 2, example_raw ''C'' 5,
                example_raw ''C'' 6]"
  let ?prev = "[example_product ''A'' 1, example_product ''A'' 2, example_product ''C'' 5,
                example_product ''C'' 6]"
  let ?cur = "[example_product ''A'' 3, example_product ''A'' 4, example_product ''B'' 7,
       example_product ''B'' 8]"
  have h1: "valid_iter (rev :: int pyval list \<Rightarrow> int pyval list)"
    by (rule valid_iter_rev)
  have h2: "map from_dict ?raws = map Inr ?prev"
    by (simp add: from_dict_example_raw)
  have h3: "\<forall>p\<in>set ?prev \<union> set ?cur. is_number (price p)"
    by simp
  have h3': "list_all (\<lambda>p. is_number (price p)) (?prev @ ?cur)"
    by simp
  from compare_last_write_wins [OF h1 h2 h3] obtain d where
    d: "compare rev ?raws ?cur = Inr d \<and>
           distinct (map sku (new_products d)) \<and>
           distinct (map sku (removed_products d)) \<and>
           distinct (map (\<lambda>e. sku (product_obj e)) (price_changes d)) \<and>
           (\<forall>p. p \<in> set (new_products d) \<longleftrightarrow>
                  latest (sku p) ?cur = Some p \<and> latest (sku p) ?prev = None) \<and>
           (\<forall>p. p \<in> set (removed_products d) \<longleftrightarrow>
                  latest (sku p) ?prev = Some p \<and> latest (sku p) ?cur = None) \<and>
           (\<forall>e. e \<in> set (price_changes d) \<longleftrightarrow>
              (\<exists>k pp cp c. latest k ?prev = Some pp \<and> latest k ?cur = Some cp \<and>
                 price pp \<noteq> price cp \<and> py_sub (price cp) (price pp) = Inr c \<and>
                 e = \<lparr>product_obj = cp, old_price = price pp, new_price = price cp,
                       change = c\<rparr>))" ..
  note d1 = d [THEN conjunct1]
    and d2 = d [THEN conjunct2, THEN conjunct1]
    and d3 = d [THEN conjunct2, THEN conjunct2, THEN conjunct1]
    and d4 = d [THEN conjunct2, THEN conjunct2, THEN conjunct2, THEN conjunct1]
  from d1 compare_duplicates_example
  have dd: "d = \<lparr>new_products = [example_product ''B'' 8],
        removed_products = [example_product ''C'' 6],
        price_changes = [\<lparr>product_obj = example_product ''A'' 4, old_price = PNum 2,
           new_price = PNum 4, change = PNum 2\<rparr>]\<rparr>"
    by simp
  have e: "new_products d = [example_product ''B'' 8]"
    "removed_products d = [example_product ''C'' 6]"
    "price_changes d = [\<lparr>product_obj = example_product ''A'' 4, old_price = PNum 2,
           new_price = PNum 4, change = PNum 2\<rparr>]"
    by (simp_all add: dd)
  have "\<exists>d. compare rev ?raws ?cur = Inr d \<and>
        new_products d = [example_product ''B'' 8] \<and>
        removed_products d = [example_product ''C'' 6] \<and>
        price_changes d = [\<lparr>product_obj = example_product ''A'' 4, old_price = PNum 2,
           new_price = PNum 4, change = PNum 2\<rparr>] \<and>
        distinct (map sku (new_products d)) \<and>
        distinct (map sku (removed_products d)) \<and>
        distinct (map (\<lambda>e. sku (product_obj e)) (price_changes d))"
    by (rule exI [of _ d], intro conjI, rule d1, rule e(1), rule e(2), rule e(3),
        rule d2, rule d3, rule d4)
  with h1 h2 h3' show ?thesis
    by (intro conjI)
qed

text \<open>
  C10. In the report of \<open>compare\<close> the new products are the current skus absent from the
  previous side, the removed products the previous skus absent from the current side,
  and the price changes concern skus present on both sides, so the three sets of skus
  are pairwise disjoint.
\<close>

theorem compare_classification:
  assumes v: "valid_iter iter"
    and raws: "map from_dict previous_products = map Inr prev"
    and nums: "\<forall>p\<in>set prev \<union> set cur. is_number (price p)"
  shows "\<exists>d. compare iter previous_products cur = Inr d \<and>
           sku ` set (new_products d) = sku ` set cur - sku ` set prev \<and>
           sku ` set (removed_products d) = sku ` set prev - sku ` set cur \<and>
           (\<lambda>e. sku (product_obj e)) ` set (price_changes d) \<subseteq>
             sku ` set cur \<inter> sku ` set prev \<and>
           sku ` set (new_products d) \<inter> sku ` set (removed_products d) = {} \<and>
           sku ` set (new_products d) \<inter>
             (\<lambda>e. sku (product_obj e)) ` set (price_changes d) = {} \<and>
           sku ` set (removed_products d) \<inter>
             (\<lambda>e. sku (product_obj e)) ` set (price_changes d) = {}"
proof -
  let ?d = "diff_of iter prev cur"
  have eq: "compare iter previous_products cur = Inr ?d"
    using v raws nums by (intro compare_eq nums_all)
  have "set (map sku (new_products ?d)) = sku ` set cur - sku ` set prev"
    by (simp only: skus_new [OF v]) (simp add: valid_iter_set [OF v])
  then have n: "sku ` set (new_products ?d) = sku ` set cur - sku ` set prev"
    by simp
  have "set (map sku (removed_products ?d)) = sku ` set prev - sku ` set cur"
    by (simp only: skus_removed [OF v]) (simp add: valid_iter_set [OF v])
  then have r: "sku ` set (removed_products ?d) = sku ` set prev - sku ` set cur"
    by simp
  have "set (map (\<lambda>e. sku (product_obj e)) (price_changes ?d)) \<subseteq>
          sku ` set cur \<inter> sku ` set prev"
    by (simp only: skus_changes [OF v]) (auto simp: valid_iter_set [OF v])
  then have c: "(\<lambda>e. sku (product_obj e)) ` set (price_changes ?d) \<subseteq>
          sku ` set cur \<inter> sku ` set prev"
    by simp
  have "sku ` set (new_products ?d) \<inter> sku ` set (removed_products ?d) = {}"
    "sku ` set (new_products ?d) \<inter>
             (\<lambda>e. sku (product_obj e)) ` set (price_changes ?d) = {}"
    "sku ` set (removed_products ?d) \<inter>
             (\<lambda>e. sku (product_obj e)) ` set (price_changes ?d) = {}"
    using c unfolding n r by blast+
  with eq n r c show ?thesis by blast
qed

theorem compare_classification_witness:
  "valid_iter (rev :: int pyval list \<Rightarrow> int pyval list) \<and>
   map from_dict [example_raw ''A'' 1, example_raw ''A'' 2, example_raw ''C'' 5,
                  example_raw ''C'' 6] =
     map Inr [example_product ''A'' 1, example_product ''A'' 2, example_product ''C'' 5,
              example_product ''C'' 6] \<and>
   list_all (\<lambda>p. is_number (price p))
     ([example_product ''A'' 1, example_product ''A'' 2, example_product ''C'' 5,
       example_product ''C'' 6] @
      [example_product ''A'' 3, example_product ''A'' 4, example_product ''B'' 7,
       example_product ''B'' 8]) \<and>
   (\<exists>d. compare rev [example_raw ''A'' 1, example_raw ''A'' 2, example_raw ''C'' 5,
                     example_raw ''C'' 6]
          [example_product ''A'' 3, example_product ''A'' 4, example_product ''B'' 7,
           example_product ''B'' 8] = Inr d \<and>
        map sku (new_products d) = [PStr ''B''] \<and>
        map sku (removed_products d) = [PStr ''C''] \<and>
        map (\<lambda>e. sku (product_obj e)) (price_changes d) = [PStr ''A''] \<and>
        sku ` set (new_products d) \<inter> sku ` set (removed_products d) = {} \<and>
        sku ` set (new_products d) \<inter>
          (\<lambda>e. sku (product_obj e)) ` set (price_changes d) = {} \<and>
        sku ` set (removed_products d) \<inter>
          (\<lambda>e. sku (product_obj e)) ` set (price_changes d) = {})"
proof -
  let ?raws = "[example_raw ''A'' 1, example_raw ''A'' 2, example_raw ''C'' 5,
                example_raw ''C'' 6]"
  let ?prev = "[example_product ''A'' 1, example_product ''A'' 2, example_product ''C'' 5,
                example_product ''C'' 6]"
  let ?cur = "[example_product ''A'' 3, example_product ''A'' 4, example_product ''B'' 7,
       example_product ''B'' 8]"
  have h1: "valid_iter (rev :: int pyval list \<Rightarrow> int pyval list)"
    by (rule valid_iter_rev)
  have h2: "map from_dict ?raws = map Inr ?prev"
    by (simp add: from_dict_example_raw)
  have h3: "\<forall>p\<in>set ?prev \<union> set ?cur. is_number (price p)"
    by simp
  have h3': "list_all (\<lambda>p. is_number (price p)) (?prev @ ?cur)"
    by simp
  from compare_classification [OF h1 h2 h3] obtain d where
    d: "compare rev ?raws ?cur = Inr d \<and>
           sku ` set (new_products d) = sku ` set ?cur - sku ` set ?prev \<and>
           sku ` set (removed_products d) = sku ` set ?prev - sku ` set ?cur \<and>
           (\<lambda>e. sku (product_obj e)) ` set (price_changes d) \<subseteq>
             sku ` set ?cur \<inter> sku ` set ?prev \<and>
           sku ` set (new_products d) \<inter> sku ` set (removed_products d) = {} \<and>
           sku ` set (new_products d) \<inter>
             (\<lambda>e. sku (product_obj e)) ` set (price_changes d) = {} \<and>
           sku ` set (removed_products d) \<inter>
             (\<lambda>e. sku (product_obj e)) ` set (price_changes d) = {}" ..
  note d1 = d [THEN conjunct1]
    and d5 = d [THEN conjunct2, THEN conjunct2, THEN conjunct2, THEN conjunct2, THEN conjunct1]
    and d6 = d [THEN conjunct2, THEN conjunct2, THEN conjunct2, THEN conjunct2,
                THEN conjunct2, THEN conjunct1]
    and d7 = d [THEN conjunct2, THEN conjunct2, THEN conjunct2, THEN conjunct2,
                THEN conjunct2, THEN conjunct2]
  from d1 compare_duplicates_example
  have dd: "d = \<lparr>new_products = [example_product ''B'' 8],
        removed_products = [example_product ''C'' 6],
        price_changes = [\<lparr>product_obj = example_product ''A'' 4, old_price = PNum 2,
           new_price = PNum 4, change = PNum 2\<rparr>]\<rparr>"
    by simp
  have e: "map sku (new_products d) = [PStr ''B'']"
    "map sku (removed_products d) = [PStr ''C'']"
    "map (\<lambda>e. sku (product_obj e)) (price_changes d) = [PStr ''A'']"
    by (simp_all add: dd)
  have "\<exists>d. compare rev ?raws ?cur = Inr d \<and>
        map sku (new_products d) = [PStr ''B''] \<and>
        map sku (removed_products d) = [PStr ''C''] \<and>
        map (\<lambda>e. sku (product_obj e)) (price_changes d) = [PStr ''A''] \<and>
        sku ` set (new_products d) \<inter> sku ` set (removed_products d) = {} \<and>
        sku ` set (new_products d) \<inter>
          (\<lambda>e. sku (product_obj e)) ` set (price_changes d) = {} \<and>
        sku ` set (removed_products d) \<inter>
          (\<lambda>e. sku (product_obj e)) ` set (price_changes d) = {}"
    by (rule exI [of _ d], intro conjI, rule d1, rule e(1), rule e(2), rule e(3),
        rule d5, rule d6, rule d7)
  with h1 h2 h3' show ?thesis
    by (intro conjI)
qed

lemma compare_rev_example:
  "compare rev [example_raw ''C'' 5] [example_product ''A'' 1, example_product ''B'' 2] =
   Inr \<lparr>new_products = [example_product ''B'' 2, example_product ''A'' 1],
        removed_products = [example_product ''C'' 5], price_changes = []\<rparr>"
proof -
  let ?prev = "[example_product ''C'' 5]"
  let ?cur = "[example_product ''A'' 1, example_product ''B'' 2]"
  have "compare rev [example_raw ''C'' 5] ?cur = Inr (diff_of rev ?prev ?cur)"
    by (rule compare_eq, rule valid_iter_rev, simp add: from_dict_example_raw,
        rule nums_all, simp)
  moreover have "skus_of ?prev = [PStr ''C'']" "skus_of ?cur = [PStr ''A'', PStr ''B'']"
    by (simp_all add: skus_of_def keys_def)
  moreover have "pick ?cur (PStr ''B'') = example_product ''B'' 2"
    "pick ?cur (PStr ''A'') = example_product ''A'' 1"
    "pick ?prev (PStr ''C'') = example_product ''C'' 5"
    by (simp_all add: pick_def latest_def)
  ultimately show ?thesis
    by (simp add: diff_of_def set_difference_def set_intersection_def)
qed

text \<open>
  C7, as stated, fails: with the set of new skus iterated in the order B, A, which is an
  admissible iteration order of a Python set, the new products of the report are
  B, A, not in ascending order of sku.
\<close>

theorem compare_sorted_counterexample:
  "valid_iter (rev :: int pyval list \<Rightarrow> int pyval list) \<and>
   compare rev [example_raw ''C'' 5] [example_product ''A'' 1, example_product ''B'' 2] =
     Inr \<lparr>new_products = [example_product ''B'' 2, example_product ''A'' 1],
          removed_products = [example_product ''C'' 5], price_changes = []\<rparr> \<and>
   \<not> sorted_by_sku (map sku [example_product ''B'' 2, example_product ''A'' 1])"
proof -
  have "\<not> sorted_by_sku (map sku [example_product ''B'' 2, example_product ''A'' 1])"
    by (simp add: sorted_by_sku_def)
  with valid_iter_rev compare_rev_example show ?thesis
    by (intro conjI)
qed

text \<open>
  C7, amended. The three lists of the report follow the order in which the sets of skus
  are iterated, which the program does not fix: the skus of each list are the iteration
  sequence of its set of skus (for the price changes, the common skus whose prices
  differ). Two runs on the same input, under any two iteration orders, return the same
  three lists up to order.
\<close>

theorem compare_iteration_order:
  assumes v: "valid_iter iter" and v': "valid_iter iter'"
    and raws: "map from_dict previous_products = map Inr prev"
    and nums: "\<forall>p\<in>set prev \<union> set cur. is_number (price p)"
  shows "\<exists>d d'. compare iter previous_products cur = Inr d \<and>
           compare iter' previous_products cur = Inr d' \<and>
           map sku (new_products d) = iter (set_difference (skus_of cur) (skus_of prev)) \<and>
           map sku (removed_products d) =
             iter (set_difference (skus_of prev) (skus_of cur)) \<and>
           map (\<lambda>e. sku (product_obj e)) (price_changes d) =
             filter (\<lambda>k. price (pick prev k) \<noteq> price (pick cur k))
               (iter (set_intersection (skus_of cur) (skus_of prev))) \<and>
           mset (new_products d') = mset (new_products d) \<and>
           mset (removed_products d') = mset (removed_products d) \<and>
           mset (price_changes d') = mset (price_changes d)"
proof -
  let ?d = "diff_of iter prev cur" and ?d' = "diff_of iter' prev cur"
  have eq: "compare iter previous_products cur = Inr ?d"
    using v raws nums by (intro compare_eq nums_all)
  have eq': "compare iter' previous_products cur = Inr ?d'"
    using v' raws nums by (intro compare_eq nums_all)
  have m: "\<And>xs. distinct xs \<Longrightarrow> mset (iter' xs) = mset (iter xs)"
    by (simp add: valid_iter_mset [OF v] valid_iter_mset [OF v'])
  have mn: "mset (new_products ?d') = mset (new_products ?d)"
    by (simp add: diff_of_def m)
  have mr: "mset (removed_products ?d') = mset (removed_products ?d)"
    by (simp add: diff_of_def m)
  have mc: "mset (price_changes ?d') = mset (price_changes ?d)"
    by (simp add: diff_of_def m)
  from eq eq' skus_new [OF v, of prev cur] skus_removed [OF v, of prev cur]
    skus_changes [OF v, of prev cur] mn mr mc
  show ?thesis by blast
qed

theorem compare_iteration_order_witness:
  "valid_iter (rev :: int pyval list \<Rightarrow> int pyval list) \<and>
   valid_iter (\<lambda>xs :: int pyval list. xs) \<and>
   map from_dict [example_raw ''C'' 5] = map Inr [example_product ''C'' 5] \<and>
   list_all (\<lambda>p. is_number (price p))
     ([example_product ''C'' 5] @ [example_product ''A'' 1, example_product ''B'' 2]) \<and>
   (\<exists>d d'. compare rev [example_raw ''C'' 5]
             [example_product ''A'' 1, example_product ''B'' 2] = Inr d \<and>
           compare (\<lambda>xs. xs) [example_raw ''C'' 5]
             [example_product ''A'' 1, example_product ''B'' 2] = Inr d' \<and>
           new_products d = [example_product ''B'' 2, example_product ''A'' 1] \<and>
           mset (new_products d') = mset (new_products d) \<and>
           mset (removed_products d') = mset (removed_products d) \<and>
           mset (price_changes d') = mset (price_changes d))"
proof -
  let ?raws = "[example_raw ''C'' 5]"
  let ?prev = "[example_product ''C'' 5]"
  let ?cur = "[example_product ''A'' 1, example_product ''B'' 2]"
  have h1: "valid_iter (rev :: int pyval list \<Rightarrow> int pyval list)"
    by (rule valid_iter_rev)
  have h1': "valid_iter (\<lambda>xs :: int pyval list. xs)"
    by (rule valid_iter_id)
  have h2: "map from_dict ?raws = map Inr ?prev"
    by (simp add: from_dict_example_raw)
  have h3: "\<forall>p\<in>set ?prev \<union> set ?cur. is_number (price p)"
    by simp
  have h3': "list_all (\<lambda>p. is_number (price p)) (?prev @ ?cur)"
    by simp
  from compare_iteration_order [OF h1 h1' h2 h3] obtain d d' where
    d: "compare rev ?raws ?cur = Inr d \<and>
           compare (\<lambda>xs. xs) ?raws ?cur = Inr d' \<and>
           map sku (new_products d) = rev (set_difference (skus_of ?cur) (skus_of ?prev)) \<and>
           map sku (removed_products d) =
             rev (set_difference (skus_of ?prev) (skus_of ?cur)) \<and>
           map (\<lambda>e. sku (product_obj e)) (price_changes d) =
             filter (\<lambda>k. price (pick ?prev k) \<noteq> price (pick ?cur k))
               (rev (set_intersection (skus_of ?cur) (skus_of ?prev))) \<and>
           mset (new_products d') = mset (new_products d) \<and>
           mset (removed_products d') = mset (removed_products d) \<and>
           mset (price_changes d') = mset (price_changes d)"
    by (elim exE)
  note d1 = d [THEN conjunct1]
    and d2 = d [THEN conjunct2, THEN conjunct1]
    and d6 = d [THEN conjunct2, THEN conjunct2, THEN conjunct2, THEN conjunct2,
                THEN conjunct2, THEN conjunct1]
    and d7 = d [THEN conjunct2, THEN conjunct2, THEN conjunct2, THEN conjunct2,
                THEN conjunct2, THEN conjunct2, THEN conjunct1]
    and d8 = d [THEN conjunct2, THEN conjunct2, THEN conjunct2, THEN conjunct2,
                THEN conjunct2, THEN conjunct2, THEN conjunct2]
  from d1 compare_rev_example
  have "d = \<lparr>new_products = [example_product ''B'' 2, example_product ''A'' 1],
        removed_products = [example_product ''C'' 5], price_changes = []\<rparr>"
    by simp
  then have e: "new_products d = [example_product ''B'' 2, example_product ''A'' 1]"
    by simp
  have "\<exists>d d'. compare rev ?raws ?cur = Inr d \<and>
           compare (\<lambda>xs. xs) ?raws ?cur = Inr d' \<and>
           new_products d = [example_product ''B'' 2, example_product ''A'' 1] \<and>
           mset (new_products d') = mset (new_products d) \<and>
           mset (removed_products d') = mset (removed_products d) \<and>
           mset (price_changes d') = mset (price_changes d)"
    by (rule exI [of _ d], rule exI [of _ d'], intro conjI, rule d1, rule d2, rule e,
        rule d6, rule d7, rule d8)
  with h1 h1' h2 h3' show ?thesis
    by (intro conjI)
qed

section \<open>Serialisation, storage and the cycle\<close>

text \<open>
  C9. Deserialising the dictionary of a product gives the product back, with all seven
  fields, also when the keys of the optional fields, which hold \<open>None\<close>, are absent from
  the dictionary; and saving the dictionaries of a list of products and loading them
  again gives dictionaries that deserialise to the same products, provided the file
  format reads back what it writes.
\<close>

theorem serialization_round_trip:
  "from_dict (to_dict p) = Inr p \<and>
   (original_price p = PNone \<and> discount p = PNone \<longrightarrow>
      from_dict ((to_dict p)(''original_price'' := None, ''discount'' := None)) = Inr p) \<and>
   (parse (render (map to_dict ps)) = Some (map to_dict ps) \<longrightarrow>
      (\<exists>rs. load_state parse (save_state render (map to_dict ps) w) = Inr rs \<and>
            map from_dict rs = map Inr ps))"
proof (intro conjI impI)
  show "from_dict (to_dict p) = Inr p"
    by (rule from_dict_to_dict)
next
  assume "original_price p = PNone \<and> discount p = PNone"
  then show "from_dict ((to_dict p)(''original_price'' := None, ''discount'' := None)) = Inr p"
    by (simp add: from_dict_def to_dict_def getitem_def dict_get_def)
next
  assume "parse (render (map to_dict ps)) = Some (map to_dict ps)"
  then have "load_state parse (save_state render (map to_dict ps) w) = Inr (map to_dict ps)"
    by (simp add: load_state_def save_state_def)
  moreover have "map from_dict (map to_dict ps) = map Inr ps"
    by (simp add: from_dict_to_dict)
  ultimately show "\<exists>rs. load_state parse (save_state render (map to_dict ps) w) = Inr rs \<and>
            map from_dict rs = map Inr ps"
    by blast
qed

theorem serialization_round_trip_witness:
  "original_price (example_product ''A'' 10) = PNone \<and>
   discount (example_product ''A'' 10) = PNone \<and>
   from_dict ((to_dict (example_product ''A'' 10))
      (''original_price'' := None, ''discount'' := None)) = Inr (example_product ''A'' 10) \<and>
   Some ((\<lambda>rs. rs) (map to_dict [example_product ''A'' 10, example_product ''B'' 20])) =
     Some (map to_dict [example_product ''A'' 10, example_product ''B'' 20]) \<and>
   (\<exists>rs. load_state Some
           (save_state (\<lambda>rs. rs)
              (map to_dict [example_product ''A'' 10, example_product ''B'' 20])
              example_world) = Inr rs \<and>
         map from_dict rs = map Inr [example_product ''A'' 10, example_product ''B'' 20])"
proof -
  note t = serialization_round_trip [of "example_product ''A'' 10" Some "\<lambda>rs. rs"
      "[example_product ''A'' 10, example_product ''B'' 20]" example_world]
  have h1: "original_price (example_product ''A'' 10) = PNone \<and>
            discount (example_product ''A'' 10) = PNone"
    by (simp add: example_product_def)
  have h2: "Some ((\<lambda>rs. rs) (map to_dict [example_product ''A'' 10, example_product ''B'' 20])) =
     Some (map to_dict [example_product ''A'' 10, example_product ''B'' 20])"
    by simp
  note t2 = t [THEN conjunct2, THEN conjunct1, THEN mp, OF h1]
    and t3 = t [THEN conjunct2, THEN conjunct2, THEN mp, OF h2]
  from h1 [THEN conjunct1] h1 [THEN conjunct2] t2 h2 t3 show ?thesis
    by (intro conjI)
qed

lemma validate_example_config: "validate example_config = Inr True"
  by (simp add: validate_def example_config_def)

lemma validate_token: "validate cfg = Inr ok \<Longrightarrow> truthy (telegram_bot_token cfg)"
  by (auto simp: validate_def split: if_splits)

lemma notify_error_valid:
  "validate cfg = Inr ok \<Longrightarrow> notify_error_or_pass cfg e w = send_error_notification e w"
  by (simp add: notify_error_or_pass_def validate_token)

lemma state_file_send_error [simp]:
  "state_file (send_error_notification e w) = state_file w"
  by (simp add: send_error_notification_def dispatch_def)

lemma change_notifications_send_error [simp]:
  "change_notifications (send_error_notification e w) = change_notifications w"
  by (simp add: change_notifications_def send_error_notification_def dispatch_def)

lemma state_file_notify_error [simp]:
  "state_file (notify_error_or_pass cfg e w) = state_file w"
  by (simp add: notify_error_or_pass_def)

lemma change_notifications_notify_error [simp]:
  "change_notifications (notify_error_or_pass cfg e w) = change_notifications w"
  by (simp add: notify_error_or_pass_def)





lemma empty_scrape_cycle:
  "run_scrape_cycle iter parse render (Inr []) w =
     (case load_state parse w of
        Inl e \<Rightarrow> (Failed e, send_error_notification e w)
      | Inr previous_products \<Rightarrow> (NoProducts, w))"
  by (simp add: run_scrape_cycle_def run_scrape_cycle_sync_def split: sum.splits)

lemma empty_scrape_single_run:
  "single_run_main cfg iter parse render (Inr []) w =
     (case validate cfg of
        Inl e \<Rightarrow> (False, notify_error_or_pass cfg e w)
      | Inr ok \<Rightarrow>
         (case load_state parse w of
            Inl e \<Rightarrow> (False, notify_error_or_pass cfg e w)
          | Inr previous_products \<Rightarrow> (False, w)))"
  by (simp add: single_run_main_def run_scrape_cycle_sync_def split: sum.splits)

text \<open>
  C5. A cycle whose scrape returns no product leaves the state file as it was and
  dispatches no change notification, in both entry points and whatever the
  configuration is; it does not complete, and when the previous state loaded it
  changes nothing at all.
\<close>

theorem empty_scrape_aborts:
  "state_file (snd (run_scrape_cycle iter parse render (Inr []) w)) = state_file w \<and>
   change_notifications (snd (run_scrape_cycle iter parse render (Inr []) w)) =
     change_notifications w \<and>
   fst (run_scrape_cycle iter parse render (Inr []) w) \<noteq> Completed \<and>
   state_file (snd (single_run_main cfg iter parse render (Inr []) w)) = state_file w \<and>
   change_notifications (snd (single_run_main cfg iter parse render (Inr []) w)) =
     change_notifications w \<and>
   \<not> fst (single_run_main cfg iter parse render (Inr []) w) \<and>
   (load_state parse w = Inr previous_products \<longrightarrow>
      run_scrape_cycle iter parse render (Inr []) w = (NoProducts, w) \<and>
      (validate cfg = Inr True \<longrightarrow>
         single_run_main cfg iter parse render (Inr []) w = (False, w)))"
proof (intro conjI impI)
  show "state_file (snd (run_scrape_cycle iter parse render (Inr []) w)) = state_file w"
    by (simp add: empty_scrape_cycle split: sum.splits)
  show "change_notifications (snd (run_scrape_cycle iter parse render (Inr []) w)) =
     change_notifications w"
    by (simp add: empty_scrape_cycle split: sum.splits)
  show "fst (run_scrape_cycle iter parse render (Inr []) w) \<noteq> Completed"
    by (simp add: empty_scrape_cycle split: sum.splits)
  show "state_file (snd (single_run_main cfg iter parse render (Inr []) w)) = state_file w"
    by (simp add: empty_scrape_single_run split: sum.splits)
  show "change_notifications (snd (single_run_main cfg iter parse render (Inr []) w)) =
     change_notifications w"
    by (simp add: empty_scrape_single_run split: sum.splits)
  show "\<not> fst (single_run_main cfg iter parse render (Inr []) w)"
    by (simp add: empty_scrape_single_run split: sum.splits)
next
  assume l: "load_state parse w = Inr previous_products"
  show "run_scrape_cycle iter parse render (Inr []) w = (NoProducts, w)"
    by (simp add: empty_scrape_cycle l)
  assume g: "validate cfg = Inr True"
  show "single_run_main cfg iter parse render (Inr []) w = (False, w)"
    by (simp add: empty_scrape_single_run l g)
qed

text \<open>A world with a saved snapshot of one product and one notification sent.\<close>

lemma load_state_saved:
  "load_state Some \<lparr>state_file = Some [example_raw ''A'' 10],
      sent = [NewProduct (example_product ''A'' 10)]\<rparr> = Inr [example_raw ''A'' 10]"
  by (simp add: load_state_def)

theorem empty_scrape_aborts_witness:
  "load_state Some \<lparr>state_file = Some [example_raw ''A'' 10],
      sent = [NewProduct (example_product ''A'' 10)]\<rparr> = Inr [example_raw ''A'' 10] \<and>
   validate example_config = Inr True \<and>
   run_scrape_cycle rev Some (\<lambda>rs. rs) (Inr [])
     \<lparr>state_file = Some [example_raw ''A'' 10],
      sent = [NewProduct (example_product ''A'' 10)]\<rparr> =
     (NoProducts, \<lparr>state_file = Some [example_raw ''A'' 10],
        sent = [NewProduct (example_product ''A'' 10)]\<rparr>) \<and>
   single_run_main example_config rev Some (\<lambda>rs. rs) (Inr [])
     \<lparr>state_file = Some [example_raw ''A'' 10],
      sent = [NewProduct (example_product ''A'' 10)]\<rparr> =
     (False, \<lparr>state_file = Some [example_raw ''A'' 10],
        sent = [NewProduct (example_product ''A'' 10)]\<rparr>)"
proof -
  let ?w = "\<lparr>state_file = Some [example_raw ''A'' 10],
      sent = [NewProduct (example_product ''A'' 10)]\<rparr>"
  note t = empty_scrape_aborts [of rev Some "\<lambda>rs. rs" ?w example_config
      "[example_raw ''A'' 10]"]
  note g = validate_example_config
  note t7 = t [THEN conjunct2, THEN conjunct2, THEN conjunct2, THEN conjunct2,
      THEN conjunct2, THEN conjunct2, THEN mp, OF load_state_saved]
  note t8 = t7 [THEN conjunct2, THEN mp, OF g]
  from load_state_saved g t7 [THEN conjunct1] t8 show ?thesis
    by (intro conjI)
qed

lemma corrupt_load:
  "state_file w = Some content \<Longrightarrow> parse content = None \<Longrightarrow>
   load_state parse w = Inl CorruptStateError"
  by (simp add: load_state_def)

text \<open>
  C6. When the state file exists and its content does not parse, loading fails with
  \<open>CorruptStateError\<close>, and the cycle takes its failure exit in both entry points: it
  reports failure and leaves the state file as it was, so the corrupt state is not
  replaced by a first-run baseline, and it sends the error notification and nothing
  else (in the single-run entry point, when the configuration is valid).
\<close>

theorem corrupt_state_fails:
  "state_file w = Some content \<and> parse content = None \<longrightarrow>
     load_state parse w = Inl CorruptStateError \<and>
     run_scrape_cycle iter parse render scrape_result w =
       (Failed CorruptStateError, send_error_notification CorruptStateError w) \<and>
     (validate cfg = Inr True \<longrightarrow>
        single_run_main cfg iter parse render scrape_result w =
          (False, send_error_notification CorruptStateError w)) \<and>
     \<not> fst (single_run_main cfg iter parse render scrape_result w) \<and>
     state_file (snd (single_run_main cfg iter parse render scrape_result w)) =
       Some content \<and>
     state_file (send_error_notification CorruptStateError w) = Some content \<and>
     change_notifications (send_error_notification CorruptStateError w) =
       change_notifications w"
proof (intro impI conjI)
  assume a: "state_file w = Some content \<and> parse content = None"
  then have l: "load_state parse w = Inl CorruptStateError"
    by (simp add: corrupt_load)
  show "load_state parse w = Inl CorruptStateError"
    by (rule l)
  show "run_scrape_cycle iter parse render scrape_result w =
       (Failed CorruptStateError, send_error_notification CorruptStateError w)"
    by (simp add: run_scrape_cycle_def run_scrape_cycle_sync_def l)
  show "\<not> fst (single_run_main cfg iter parse render scrape_result w)"
    by (simp add: single_run_main_def run_scrape_cycle_sync_def l split: sum.splits)
  show "state_file (snd (single_run_main cfg iter parse render scrape_result w)) =
       Some content"
    using a by (simp add: single_run_main_def run_scrape_cycle_sync_def l split: sum.splits)
  show "state_file (send_error_notification CorruptStateError w) = Some content"
    using a by simp
  show "change_notifications (send_error_notification CorruptStateError w) =
       change_notifications w"
    by simp
next
  assume a: "state_file w = Some content \<and> parse content = None"
    and g: "validate cfg = Inr True"
  from a have l: "load_state parse w = Inl CorruptStateError"
    by (simp add: corrupt_load)
  show "single_run_main cfg iter parse render scrape_result w =
          (False, send_error_notification CorruptStateError w)"
    by (simp add: single_run_main_def run_scrape_cycle_sync_def l g notify_error_valid [OF g])
qed

theorem corrupt_state_fails_witness:
  "state_file corrupt_world = Some ''[{sku: A, pri'' \<and>
   example_parse ''[{sku: A, pri'' = None \<and>
   validate example_config = Inr True \<and>
   load_state example_parse corrupt_world = Inl CorruptStateError \<and>
   run_scrape_cycle rev example_parse (\<lambda>rs. ''[]'') (Inr [example_product ''A'' 10])
     corrupt_world =
     (Failed CorruptStateError,
      \<lparr>state_file = Some ''[{sku: A, pri'', sent = [ErrorNotification CorruptStateError]\<rparr>) \<and>
   single_run_main example_config rev example_parse (\<lambda>rs. ''[]'')
     (Inr [example_product ''A'' 10]) corrupt_world =
     (False,
      \<lparr>state_file = Some ''[{sku: A, pri'', sent = [ErrorNotification CorruptStateError]\<rparr>)"
proof -
  note t = corrupt_state_fails [of corrupt_world "''[{sku: A, pri''" example_parse rev
      "\<lambda>rs. ''[]''" "Inr [example_product ''A'' 10]" example_config]
  have h1: "state_file corrupt_world = Some ''[{sku: A, pri''"
    by (simp add: corrupt_world_def)
  have h2: "example_parse ''[{sku: A, pri'' = None"
    by (simp add: example_parse_def)
  note g = validate_example_config
  have s: "send_error_notification CorruptStateError corrupt_world =
     \<lparr>state_file = Some ''[{sku: A, pri'', sent = [ErrorNotification CorruptStateError]\<rparr>"
    by (simp add: send_error_notification_def dispatch_def corrupt_world_def)
  note c = t [THEN mp, OF conjI [OF h1 h2]]
  note c1 = c [THEN conjunct1]
    and c2 = c [THEN conjunct2, THEN conjunct1, unfolded s]
    and c3 = c [THEN conjunct2, THEN conjunct2, THEN conjunct1, THEN mp, OF g, unfolded s]
  from h1 h2 g c1 c2 c3 show ?thesis
    by (intro conjI)
qed

section \<open>The failure branches, and a cycle with changes\<close>

text \<open>
  \<open>from_dict\<close> returns a product exactly when the five required keys are present, and
  raises \<open>KeyError\<close> otherwise; this is the condition on the previous dictionaries under
  which the theorems on \<open>compare\<close> are stated.
\<close>

lemma from_dict_Inr_iff:
  "(\<exists>q. from_dict r = Inr q) \<longleftrightarrow>
     r ''sku'' \<noteq> None \<and> r ''title'' \<noteq> None \<and> r ''price'' \<noteq> None \<and>
     r ''url'' \<noteq> None \<and> r ''image'' \<noteq> None"
  by (auto simp: from_dict_def getitem_def bind_error_def split: option.splits)

lemma from_dict_Inl: "from_dict r = Inl e \<Longrightarrow> e = KeyError"
  by (auto simp: from_dict_def getitem_def bind_error_def split: option.splits)

lemma compare_missing_key:
  "compare iter [(example_raw ''A'' 100)(''title'' := None)] cur = Inl KeyError"
  by (simp add: compare_def from_dict_def getitem_def example_raw_def)

text \<open>A price that is not a number makes the subtraction raise.\<close>

lemma compare_price_not_a_number:
  "compare (\<lambda>xs. xs) [(example_raw ''A'' 100)(''price'' \<mapsto> PNone)] [example_product ''A'' 120] =
     Inl TypeError"
  by (simp add: compare_def from_dict_def getitem_def dict_get_def example_raw_def
      example_product_def keys_def set_difference_def set_intersection_def lookup_def)

text \<open>
  A cycle after the first one, on the example of the specification: the new product and
  the price change are dispatched, then the scraped products are saved.
\<close>

lemma cycle_with_changes:
  "run_scrape_cycle rev Some (\<lambda>rs. rs)
     (Inr [example_product ''A'' 120, example_product ''B'' 50])
     \<lparr>state_file = Some [example_raw ''A'' 100], sent = []\<rparr> =
   (Completed,
    \<lparr>state_file = Some (map to_dict [example_product ''A'' 120, example_product ''B'' 50]),
     sent = [NewProduct (example_product ''B'' 50),
             PriceChanged \<lparr>product_obj = example_product ''A'' 120, old_price = PNum 100,
               new_price = PNum 120, change = PNum 20\<rparr>]\<rparr>)"
proof -
  have n: "new_product_message_error (example_product ''B'' 50) = None"
    by (simp add: example_product_def)
  show ?thesis
    by (simp add: run_scrape_cycle_def run_scrape_cycle_sync_def load_state_def
        compare_notify_save_def is_first_run_def compare_example [OF valid_iter_rev]
        has_changes_def send_diff_notifications_def n dispatch_def save_state_def
        del: new_product_message_error.simps)
qed

text \<open>
  A single run whose configuration has no bot token fails at \<open>validate\<close> and sends
  nothing, since the notifier of the \<open>except\<close> branch cannot be constructed; with a
  token and no chat id the error notification is handed to the bot.
\<close>

lemma single_run_without_token:
  "single_run_main (example_config\<lparr>telegram_bot_token := None\<rparr>) iter parse render
     scrape_result w = (False, w)"
  by (simp add: single_run_main_def validate_def notify_error_or_pass_def example_config_def)

lemma single_run_without_chat_id:
  "single_run_main (example_config\<lparr>telegram_chat_id := None\<rparr>) iter parse render
     scrape_result w = (False, send_error_notification ValueError w)"
  by (simp add: single_run_main_def validate_def notify_error_or_pass_def example_config_def)


end
